theory Spec2Isabelle
  imports Main "HOL-Library.Char_ord" "HOL-Library.List_Lexorder" "HOL-Library.Sublist"
begin

section \<open>Strings and paths\<close>

text \<open>
  The Python sources run on file names and paths. The helpers below are the POSIX
  versions of the library functions the sources call: \<^verbatim>\<open>str.endswith\<close>,
  \<^verbatim>\<open>str.rfind\<close>, \<^verbatim>\<open>os.path.basename\<close>, \<^verbatim>\<open>os.path.join\<close>,
  \<^verbatim>\<open>pathlib.Path.name/stem/suffix\<close> (as in CPython up to 3.13) and the format
  specification \<^verbatim>\<open>{i:03d}\<close>.
\<close>

type_synonym path = string

definition endswith :: "string \<Rightarrow> string \<Rightarrow> bool" where
  "endswith s suf = (length suf \<le> length s \<and> drop (length s - length suf) s = suf)"

definition startswith :: "string \<Rightarrow> string \<Rightarrow> bool" where
  "startswith s pre = (take (length pre) s = pre)"

text \<open>\<^verbatim>\<open>s.rfind(c)\<close>: the index of the last occurrence, \<open>None\<close> for Python's -1.\<close>

fun rfind :: "char \<Rightarrow> string \<Rightarrow> nat option" where
  "rfind c [] = None"
| "rfind c (x # xs) =
     (case rfind c xs of
        Some i \<Rightarrow> Some (Suc i)
      | None \<Rightarrow> if x = c then Some 0 else None)"

text \<open>\<^verbatim>\<open>os.path.basename(p)\<close>: \<^verbatim>\<open>i = p.rfind('/') + 1; return p[i:]\<close>.\<close>

definition basename :: "path \<Rightarrow> string" where
  "basename p = (case rfind (CHR ''/'') p of None \<Rightarrow> p | Some i \<Rightarrow> drop (Suc i) p)"

text \<open>\<^verbatim>\<open>os.path.join(a, b)\<close> for two arguments.\<close>

definition join :: "path \<Rightarrow> string \<Rightarrow> path" where
  "join a b =
     (if startswith b ''/'' then b
      else if a = [] \<or> endswith a ''/'' then a @ b
      else a @ ''/'' @ b)"

text \<open>The components of a path, as \<^verbatim>\<open>pathlib\<close> parses them: split at \<^verbatim>\<open>/\<close>,
  empty and \<^verbatim>\<open>.\<close> components dropped.\<close>

fun split_sep :: "string \<Rightarrow> string \<Rightarrow> string list" where
  "split_sep cur [] = [rev cur]"
| "split_sep cur (c # cs) =
     (if c = CHR ''/'' then rev cur # split_sep [] cs else split_sep (c # cur) cs)"

definition path_parts :: "path \<Rightarrow> string list" where
  "path_parts p = filter (\<lambda>c. c \<noteq> [] \<and> c \<noteq> ''.'') (split_sep [] p)"

definition path_name :: "path \<Rightarrow> string" where
  "path_name p = (case path_parts p of [] \<Rightarrow> [] | ps \<Rightarrow> last ps)"

text \<open>\<^verbatim>\<open>Path(p).suffix\<close> and \<^verbatim>\<open>Path(p).stem\<close>:
  \<^verbatim>\<open>i = name.rfind('.'); if 0 < i < len(name) - 1: name[i:] / name[:i]\<close>.\<close>

definition path_suffix :: "path \<Rightarrow> string" where
  "path_suffix p =
     (let name = path_name p in
      case rfind (CHR ''.'') name of
        None \<Rightarrow> []
      | Some i \<Rightarrow> if 0 < i \<and> Suc i < length name then drop i name else [])"

definition path_stem :: "path \<Rightarrow> string" where
  "path_stem p =
     (let name = path_name p in
      case rfind (CHR ''.'') name of
        None \<Rightarrow> name
      | Some i \<Rightarrow> if 0 < i \<and> Suc i < length name then take i name else name)"

text \<open>Decimal digits of a natural number, and \<^verbatim>\<open>f"{i:03d}"\<close>: at least three
  digits, padded with zeros on the left.\<close>

definition digit_char :: "nat \<Rightarrow> char" where
  "digit_char d = ''0123456789'' ! d"

fun decimal :: "nat \<Rightarrow> string" where
  "decimal n = (if n < 10 then [digit_char n] else decimal (n div 10) @ [digit_char (n mod 10)])"

declare decimal.simps [simp del]

definition fmt_03d :: "nat \<Rightarrow> string" where
  "fmt_03d i = replicate (3 - length (decimal i)) (CHR ''0'') @ decimal i"

text \<open>\<^verbatim>\<open>os.path.dirname(p)\<close>: the head up to the last \<^verbatim>\<open>/\<close>, trailing slashes
  stripped unless the head is slashes only.\<close>

definition dirname :: "path \<Rightarrow> path" where
  "dirname p =
     (case rfind (CHR ''/'') p of
        None \<Rightarrow> []
      | Some i \<Rightarrow>
          (let head = take (Suc i) p
           in if list_all (\<lambda>c. c = CHR ''/'') head then head
              else rev (dropWhile (\<lambda>c. c = CHR ''/'') (rev head))))"

text \<open>\<^verbatim>\<open>str.lower\<close> and \<^verbatim>\<open>str.upper\<close> on ASCII letters.\<close>

definition lower :: "string \<Rightarrow> string" where
  "lower s =
     map (\<lambda>c. case map_of (zip ''ABCDEFGHIJKLMNOPQRSTUVWXYZ'' ''abcdefghijklmnopqrstuvwxyz'') c of
                 None \<Rightarrow> c | Some l \<Rightarrow> l) s"

definition upper :: "string \<Rightarrow> string" where
  "upper s =
     map (\<lambda>c. case map_of (zip ''abcdefghijklmnopqrstuvwxyz'' ''ABCDEFGHIJKLMNOPQRSTUVWXYZ'') c of
                 None \<Rightarrow> c | Some u \<Rightarrow> u) s"

section \<open>The world outside the program\<close>

text \<open>
  The browser, the file system, the imaging libraries and the clock are outside the
  program. Every call into them is an operation of the environment \<open>env\<close> on an
  external world of an arbitrary type \<open>'w\<close>; it returns the call's outcome, an
  exception as \<open>Inl\<close>, and the next world. The theorems hold for every environment.
  The model keeps a log of the calls the claims speak about (\<open>trace\<close>) and a
  clock in milliseconds (\<open>now\<close>) that \<^verbatim>\<open>time.sleep\<close> advances.
\<close>

datatype error =
  TimeoutException | WebDriverException | AttributeError | OSError
  | ZeroDivisionError | ImportError | TypeError | UnicodeEncodeError

type_synonym element = nat
type_synonym image = nat

datatype event =
    WaitPresence string "element option"
  | IsEnabled element "bool option"
  | ChromeStarted nat
  | ChromeQuit nat bool
  | Mkdtemp "path option"
  | Rmtree path bool
  | Rasterize path nat string "image list option"
  | SavePdf path "image list" bool
  | Paso nat
  | Listed "string list option"
  | Renamed path path bool
  | Sized path bool
  | Clock nat
  | ImageSaved image path bool
  | Opened path "image option"
  | NotFound path
  | FolderExists path bool

record 'w world =
  ext :: 'w
  now :: nat
  trace :: "event list"

record 'w env =
  SELENIUM_AVAILABLE :: bool
  PDF2IMAGE_AVAILABLE :: bool
  PIL_AVAILABLE :: bool
  new_chrome :: "'w \<Rightarrow> (error + nat) \<times> 'w"
  execute_script :: "string \<Rightarrow> 'w \<Rightarrow> (error + unit) \<times> 'w"
  set_page_load_timeout :: "nat \<Rightarrow> 'w \<Rightarrow> (error + unit) \<times> 'w"
  driver_get :: "string \<Rightarrow> 'w \<Rightarrow> (error + unit) \<times> 'w"
  driver_quit :: "'w \<Rightarrow> (error + unit) \<times> 'w"
  wait_presence :: "nat \<Rightarrow> string \<Rightarrow> 'w \<Rightarrow> (error + element) \<times> 'w"
  wait_invisible :: "nat \<Rightarrow> element \<Rightarrow> 'w \<Rightarrow> (error + unit) \<times> 'w"
  wait_clickable :: "nat \<Rightarrow> string \<Rightarrow> 'w \<Rightarrow> (error + element) \<times> 'w"
  find_element :: "string \<Rightarrow> 'w \<Rightarrow> (error + element) \<times> 'w"
  is_enabled :: "element \<Rightarrow> 'w \<Rightarrow> (error + bool) \<times> 'w"
  is_displayed :: "element \<Rightarrow> 'w \<Rightarrow> (error + bool) \<times> 'w"
  click :: "element \<Rightarrow> 'w \<Rightarrow> (error + unit) \<times> 'w"
  send_keys :: "element \<Rightarrow> string \<Rightarrow> 'w \<Rightarrow> (error + unit) \<times> 'w"
  abspath :: "path \<Rightarrow> path"
  path_exists :: "path \<Rightarrow> 'w \<Rightarrow> bool \<times> 'w"
  listdir :: "path \<Rightarrow> 'w \<Rightarrow> (error + string list) \<times> 'w"
  rename :: "path \<Rightarrow> path \<Rightarrow> 'w \<Rightarrow> (error + unit) \<times> 'w"
  getsize :: "path \<Rightarrow> 'w \<Rightarrow> (error + nat) \<times> 'w"
  makedirs :: "path \<Rightarrow> 'w \<Rightarrow> (error + unit) \<times> 'w"
  mkdtemp :: "string \<Rightarrow> 'w \<Rightarrow> (error + path) \<times> 'w"
  rmtree :: "path \<Rightarrow> 'w \<Rightarrow> (error + unit) \<times> 'w"
  glob :: "path \<Rightarrow> string \<Rightarrow> 'w \<Rightarrow> (error + path list) \<times> 'w"
  set_iter :: "string list \<Rightarrow> string list"
  print_symbols :: "'w \<Rightarrow> (error + unit) \<times> 'w"
  oversleep :: "'w \<Rightarrow> nat \<times> 'w"
  convert_from_path :: "path \<Rightarrow> nat \<Rightarrow> string \<Rightarrow> 'w \<Rightarrow> (error + image list) \<times> 'w"
  convert_first_page :: "path \<Rightarrow> nat \<Rightarrow> 'w \<Rightarrow> (error + image list) \<times> 'w"
  image_save :: "image \<Rightarrow> path \<Rightarrow> string \<Rightarrow> 'w \<Rightarrow> (error + unit) \<times> 'w"
  count_page_markers :: "path \<Rightarrow> 'w \<Rightarrow> (error + nat) \<times> 'w"
  draw_mock_page :: "path \<Rightarrow> nat \<Rightarrow> nat \<Rightarrow> 'w \<Rightarrow> (error + image) \<times> 'w"
  image_open_rgb :: "path \<Rightarrow> 'w \<Rightarrow> (error + image) \<times> 'w"
  save_pdf :: "image list \<Rightarrow> path \<Rightarrow> nat \<Rightarrow> 'w \<Rightarrow> (error + unit) \<times> 'w"

text \<open>
  Two operations stand for behaviour of the Python runtime. \<open>set_iter env xs\<close> is the
  order in which an iteration over the set of the distinct strings \<open>xs\<close> yields them:
  the language leaves it open, the hashes of the run fix it. \<open>print_symbols\<close> is a
  \<^verbatim>\<open>print\<close> of a line that holds one of the symbols U+2192 (arrow), U+2713 (check
  mark) or U+2717 (ballot cross); it raises \<^verbatim>\<open>UnicodeEncodeError\<close> on a standard
  output whose encoding lacks them. The other lines the sources print are text in
  Latin letters and the names of the files given, and are taken to be printable.
\<close>

text \<open>An external call: run the operation on the external world, keep its outcome,
  and append the events \<open>log\<close> derives from the outcome.\<close>

definition call :: "('a \<Rightarrow> event list) \<Rightarrow> ('w \<Rightarrow> 'a \<times> 'w) \<Rightarrow> 'w world \<Rightarrow> 'a \<times> 'w world" where
  "call log f s =
     (let (r, w') = f (ext s) in (r, s\<lparr>ext := w', trace := trace s @ log r\<rparr>))"

definition quiet :: "'a \<Rightarrow> event list" where
  "quiet r = []"

fun ok :: "error + 'a \<Rightarrow> 'a option" where
  "ok (Inl e) = None"
| "ok (Inr v) = Some v"

text \<open>\<^verbatim>\<open>time.sleep(n)\<close>: at least \<open>n\<close> seconds pass.\<close>

definition sleep :: "'w env \<Rightarrow> nat \<Rightarrow> 'w world \<Rightarrow> 'w world" where
  "sleep env n s =
     (let (extra, s1) = call quiet (oversleep env) s in s1\<lparr>now := now s1 + 1000 * n + extra\<rparr>)"

text \<open>\<^verbatim>\<open>time.time()\<close>: the reading is \<open>now s\<close>; the call is logged.\<close>

definition read_clock :: "'w world \<Rightarrow> 'w world" where
  "read_clock s = s\<lparr>trace := trace s @ [Clock (now s)]\<rparr>"

text \<open>The events a call added to the log.\<close>

definition new_events :: "'w world \<Rightarrow> 'w world \<Rightarrow> event list" where
  "new_events s s' = drop (length (trace s)) (trace s')"

section \<open>ImageWatermarkRemover\<close>

record remover =
  download_folder :: path
  headless :: bool
  driver :: "nat option"
  wait_set :: bool

definition site_url :: string where
  "site_url = ''https://www.watermarkremover.io/es/image-watermark-remover''"

definition page_timeout :: nat where "page_timeout = 30"
definition processing_timeout :: nat where "processing_timeout = 120"
definition download_timeout :: nat where "download_timeout = 60"

subsection \<open>find_upload_input\<close>

definition upload_selectors :: "string list" where
  "upload_selectors =
     [''input[type='file']'', ''#uploadImage'', ''.upload-input'',
      ''[accept*='image']'', ''.file-input'', ''[data-testid*='upload']'']"

text \<open>\<^verbatim>\<open>self.wait.until(EC.presence_of_element_located((By.CSS_SELECTOR, selector)))\<close>;
  with \<^verbatim>\<open>self.wait\<close> still \<^verbatim>\<open>None\<close> the attribute access raises.\<close>

definition wait_until_present :: "'w env \<Rightarrow> remover \<Rightarrow> string \<Rightarrow> 'w world \<Rightarrow> (error + element) \<times> 'w world" where
  "wait_until_present env rem sel s =
     (if wait_set rem
      then call (\<lambda>r. [WaitPresence sel (ok r)]) (wait_presence env page_timeout sel) s
      else (Inl AttributeError, s))"

definition element_is_enabled :: "'w env \<Rightarrow> element \<Rightarrow> 'w world \<Rightarrow> (error + bool) \<times> 'w world" where
  "element_is_enabled env el s = call (\<lambda>r. [IsEnabled el (ok r)]) (is_enabled env el) s"

text \<open>The loop \<^verbatim>\<open>for selector in selectors\<close>: both \<^verbatim>\<open>except\<close> clauses continue
  with the next selector; leaving the loop returns \<^verbatim>\<open>None\<close>.\<close>

fun probe_selectors :: "'w env \<Rightarrow> remover \<Rightarrow> string list \<Rightarrow> 'w world \<Rightarrow> element option \<times> 'w world" where
  "probe_selectors env rem [] s = (None, s)"
| "probe_selectors env rem (selector # rest) s =
     (case wait_until_present env rem selector s of
        (Inl e, s1) \<Rightarrow> probe_selectors env rem rest s1
      | (Inr el, s1) \<Rightarrow>
          (case element_is_enabled env el s1 of
             (Inl e, s2) \<Rightarrow> probe_selectors env rem rest s2
           | (Inr True, s2) \<Rightarrow> (Some el, s2)
           | (Inr False, s2) \<Rightarrow> probe_selectors env rem rest s2))"

definition find_upload_input :: "'w env \<Rightarrow> remover \<Rightarrow> 'w world \<Rightarrow> element option \<times> 'w world" where
  "find_upload_input env rem s = probe_selectors env rem upload_selectors s"


text \<open>What the theorems about \<open>find_upload_input\<close> read from the log: the selectors
  waited for, in order, and whether an event reports an enabled element.\<close>

fun probed :: "event list \<Rightarrow> string list" where
  "probed [] = []"
| "probed (WaitPresence sel r # es) = sel # probed es"
| "probed (e # es) = probed es"

fun enabled_hit :: "event \<Rightarrow> bool" where
  "enabled_hit (IsEnabled el (Some True)) = True"
| "enabled_hit e = False"

subsection \<open>setup_chrome, navigate_to_site, upload_image\<close>

text \<open>A method call on \<^verbatim>\<open>self.driver\<close> (or on \<^verbatim>\<open>self.wait\<close>): on \<^verbatim>\<open>None\<close>
  it raises before anything reaches the browser.\<close>

definition driver_call :: "remover \<Rightarrow> ('w \<Rightarrow> (error + 'a) \<times> 'w) \<Rightarrow> 'w world \<Rightarrow> (error + 'a) \<times> 'w world" where
  "driver_call rem f s = (if driver rem = None then (Inl AttributeError, s) else call quiet f s)"

definition wait_call :: "remover \<Rightarrow> ('w \<Rightarrow> (error + 'a) \<times> 'w) \<Rightarrow> 'w world \<Rightarrow> (error + 'a) \<times> 'w world" where
  "wait_call rem f s = (if wait_set rem then call quiet f s else (Inl AttributeError, s))"

definition new_remover :: "'w env \<Rightarrow> path \<Rightarrow> bool \<Rightarrow> 'w world \<Rightarrow> (error + remover) \<times> 'w world" where
  "new_remover env folder hl s =
     (case call quiet (makedirs env (abspath env folder)) s of
        (Inl e, s1) \<Rightarrow> (Inl e, s1)
      | (Inr u, s1) \<Rightarrow>
          (Inr \<lparr>download_folder = abspath env folder, headless = hl, driver = None, wait_set = False\<rparr>, s1))"

definition setup_chrome :: "'w env \<Rightarrow> remover \<Rightarrow> 'w world \<Rightarrow> bool \<times> remover \<times> 'w world" where
  "setup_chrome env rem s =
     (if \<not> SELENIUM_AVAILABLE env then (False, rem, s)
      else
        case call (\<lambda>r. case r of Inl e \<Rightarrow> [] | Inr d \<Rightarrow> [ChromeStarted d]) (new_chrome env) s of
          (Inl e, s1) \<Rightarrow> (False, rem, s1)
        | (Inr d, s1) \<Rightarrow>
            (case call quiet (execute_script env ''navigator.webdriver'') s1 of
               (Inl e, s2) \<Rightarrow> (False, rem\<lparr>driver := Some d\<rparr>, s2)
             | (Inr u, s2) \<Rightarrow>
                 (case call quiet (set_page_load_timeout env page_timeout) s2 of
                    (Inl e, s3) \<Rightarrow> (False, rem\<lparr>driver := Some d\<rparr>, s3)
                  | (Inr u', s3) \<Rightarrow> (True, rem\<lparr>driver := Some d, wait_set := True\<rparr>, s3))))"

definition navigate_to_site :: "'w env \<Rightarrow> remover \<Rightarrow> 'w world \<Rightarrow> bool \<times> 'w world" where
  "navigate_to_site env rem s =
     (case driver_call rem (driver_get env site_url) s of
        (Inl e, s1) \<Rightarrow> (False, s1)
      | (Inr u, s1) \<Rightarrow>
          (case wait_call rem (wait_presence env page_timeout ''body'') s1 of
             (Inl e, s2) \<Rightarrow> (False, s2)
           | (Inr el, s2) \<Rightarrow> (True, sleep env 2 s2)))"

definition upload_image :: "'w env \<Rightarrow> remover \<Rightarrow> path \<Rightarrow> 'w world \<Rightarrow> bool \<times> 'w world" where
  "upload_image env rem image_path s =
     (case call quiet (path_exists env image_path) s of
        (False, s1) \<Rightarrow> (False, s1)
      | (True, s1) \<Rightarrow>
          (case find_upload_input env rem s1 of
             (None, s2) \<Rightarrow> (False, s2)
           | (Some file_input, s2) \<Rightarrow>
               (case call quiet (send_keys env file_input (abspath env image_path)) s2 of
                  (Inl e, s3) \<Rightarrow> (False, s3)
                | (Inr u, s3) \<Rightarrow> (True, sleep env 2 s3))))"

subsection \<open>handle_popups\<close>

definition popup_selectors :: "string list" where
  "popup_selectors =
     [''.modal'', ''.popup'', ''.overlay'', ''.hb-modal-img'',
      ''.advertisement'', ''[role='dialog']'', ''.cookie-banner'']"

definition close_selectors :: "string list" where
  \<open>close_selectors =
     [''button[aria-label*="close"]'', ''button[aria-label*="Close"]'',
      ''.close-btn'', ''.modal-close'', ''button.close'',
      ''[data-dismiss="modal"]'', ''.popup-close'', ''[title*="Close"]'']\<close>

text \<open>The inner loop over the close buttons; \<open>True\<close> when one was clicked (the
  method then returns \<^verbatim>\<open>True\<close>), the bare \<^verbatim>\<open>except\<close> continues.\<close>

fun try_close :: "'w env \<Rightarrow> remover \<Rightarrow> string list \<Rightarrow> 'w world \<Rightarrow> bool \<times> 'w world" where
  "try_close env rem [] s = (False, s)"
| "try_close env rem (close_selector # rest) s =
     (case driver_call rem (find_element env close_selector) s of
        (Inl e, s1) \<Rightarrow> try_close env rem rest s1
      | (Inr close_button, s1) \<Rightarrow>
          (case call quiet (is_displayed env close_button) s1 of
             (Inl e, s2) \<Rightarrow> try_close env rem rest s2
           | (Inr False, s2) \<Rightarrow> try_close env rem rest s2
           | (Inr True, s2) \<Rightarrow>
               (case call quiet (is_enabled env close_button) s2 of
                  (Inl e, s3) \<Rightarrow> try_close env rem rest s3
                | (Inr False, s3) \<Rightarrow> try_close env rem rest s3
                | (Inr True, s3) \<Rightarrow>
                    (case call quiet (click env close_button) s3 of
                       (Inl e, s4) \<Rightarrow> try_close env rem rest s4
                     | (Inr u, s4) \<Rightarrow> (True, sleep env 1 s4)))))"

definition press_escape :: "'w env \<Rightarrow> remover \<Rightarrow> 'w world \<Rightarrow> 'w world" where
  "press_escape env rem s =
     (case driver_call rem (find_element env ''body'') s of
        (Inl e, s1) \<Rightarrow> s1
      | (Inr body, s1) \<Rightarrow> snd (call quiet (send_keys env body [char_of (27::nat)]) s1))"

fun scan_popups :: "'w env \<Rightarrow> remover \<Rightarrow> string list \<Rightarrow> 'w world \<Rightarrow> bool \<times> 'w world" where
  "scan_popups env rem [] s = (False, s)"
| "scan_popups env rem (popup_selector # rest) s =
     (case driver_call rem (wait_presence env 3 popup_selector) s of
        (Inl e, s1) \<Rightarrow> scan_popups env rem rest s1
      | (Inr popup, s1) \<Rightarrow>
          (case call quiet (is_displayed env popup) s1 of
             (Inl e, s2) \<Rightarrow> scan_popups env rem rest s2
           | (Inr False, s2) \<Rightarrow> scan_popups env rem rest s2
           | (Inr True, s2) \<Rightarrow>
               (case try_close env rem close_selectors s2 of
                  (True, s3) \<Rightarrow> (True, s3)
                | (False, s3) \<Rightarrow> (False, press_escape env rem s3))))"

definition handle_popups :: "'w env \<Rightarrow> remover \<Rightarrow> 'w world \<Rightarrow> bool \<times> 'w world" where
  "handle_popups env rem s = scan_popups env rem popup_selectors s"

subsection \<open>wait_for_processing_completion\<close>

definition processing_selectors :: "string list" where
  "processing_selectors =
     [''.loading'', ''.processing'', ''.spinner'', ''.progress'',
      ''[data-processing='true']'', ''.uploading'']"

definition download_selectors :: "string list" where
  \<open>download_selectors =
     [''button[data-test-id*="download"]'', ''button[data-testid*="download"]'',
      ''.download-btn'', ''.btn-download'', ''button[download]'', ''a[download]'',
      ''button:contains("Download")'', ''button:contains("Descargar")'',
      ''.download-button'']\<close>

fun await_indicators :: "'w env \<Rightarrow> remover \<Rightarrow> string list \<Rightarrow> 'w world \<Rightarrow> 'w world" where
  "await_indicators env rem [] s = s"
| "await_indicators env rem (selector # rest) s =
     (case driver_call rem (find_element env selector) s of
        (Inl e, s1) \<Rightarrow> await_indicators env rem rest s1
      | (Inr el, s1) \<Rightarrow>
          (case call quiet (is_displayed env el) s1 of
             (Inr True, s2) \<Rightarrow>
               await_indicators env rem rest
                 (snd (driver_call rem (wait_invisible env processing_timeout el) s2))
           | (r, s2) \<Rightarrow> await_indicators env rem rest s2))"

fun find_download_button :: "'w env \<Rightarrow> remover \<Rightarrow> string list \<Rightarrow> 'w world \<Rightarrow> element option \<times> 'w world" where
  "find_download_button env rem [] s = (None, s)"
| "find_download_button env rem (selector # rest) s =
     (case driver_call rem (wait_clickable env processing_timeout selector) s of
        (Inl e, s1) \<Rightarrow> find_download_button env rem rest s1
      | (Inr download_button, s1) \<Rightarrow> (Some download_button, s1))"

definition wait_for_processing_completion :: "'w env \<Rightarrow> remover \<Rightarrow> 'w world \<Rightarrow> element option \<times> 'w world" where
  "wait_for_processing_completion env rem s =
     find_download_button env rem download_selectors
       (await_indicators env rem processing_selectors s)"

subsection \<open>download_processed_image\<close>

definition incomplete_suffixes :: "string list" where
  "incomplete_suffixes = [''.crdownload'', ''.tmp'', ''.part'']"

definition complete_file :: "string \<Rightarrow> bool" where
  "complete_file f = (\<not> list_ex (endswith f) incomplete_suffixes)"

text \<open>\<^verbatim>\<open>downloaded_ext = Path(downloaded_file).suffix or original_ext\<close> and
  \<^verbatim>\<open>new_name = f"processed_{base_name}{downloaded_ext}"\<close>.\<close>

definition downloaded_ext :: "string \<Rightarrow> string \<Rightarrow> string" where
  "downloaded_ext original_filename downloaded_file =
     (if path_suffix downloaded_file \<noteq> [] then path_suffix downloaded_file
      else path_suffix original_filename)"

definition new_name :: "string \<Rightarrow> string \<Rightarrow> string" where
  "new_name original_filename downloaded_file =
     ''processed_'' @ path_stem original_filename @ downloaded_ext original_filename downloaded_file"

text \<open>The renaming of a finished download; when \<^verbatim>\<open>os.rename\<close> or the
  \<^verbatim>\<open>os.path.getsize\<close> after it raises, the path of the file as downloaded is
  returned.\<close>

definition finish_download :: "'w env \<Rightarrow> remover \<Rightarrow> string \<Rightarrow> string \<Rightarrow> 'w world \<Rightarrow> path \<times> 'w world" where
  "finish_download env rem original_filename downloaded_file s =
     (let downloaded_path = join (download_folder rem) downloaded_file;
          new_path = join (download_folder rem) (new_name original_filename downloaded_file)
      in case call (\<lambda>r. [Renamed downloaded_path new_path (ok r \<noteq> None)])
                (rename env downloaded_path new_path) s of
           (Inl e, s1) \<Rightarrow> (downloaded_path, s1)
         | (Inr u, s1) \<Rightarrow>
             (case call (\<lambda>r. [Sized new_path (ok r \<noteq> None)]) (getsize env new_path) s1 of
                (Inl e, s2) \<Rightarrow> (downloaded_path, s2)
              | (Inr file_size, s2) \<Rightarrow> (new_path, s2)))"

text \<open>\<^verbatim>\<open>new_files = current_files - files_before\<close>, a set, in the order an iteration
  yields it, and the complete ones among them, in that order:
  \<^verbatim>\<open>[f for f in new_files if not f.endswith((...))]\<close>.\<close>

definition new_files :: "'w env \<Rightarrow> string list \<Rightarrow> string list \<Rightarrow> string list" where
  "new_files env files_before current_files =
     set_iter env (filter (\<lambda>f. f \<notin> set files_before) (remdups current_files))"

definition complete_files :: "'w env \<Rightarrow> string list \<Rightarrow> string list \<Rightarrow> string list" where
  "complete_files env files_before current_files =
     filter complete_file (new_files env files_before current_files)"

lemma call_now: "call log f s = (r, s') \<Longrightarrow> now s' = now s"
  by (auto simp: call_def Let_def split: prod.splits)

lemma sleep_now: "now s + 1000 * n \<le> now (sleep env n s)"
  by (auto simp: sleep_def call_def Let_def split: prod.splits)

lemma now_read_clock [simp]: "now (read_clock s) = now s"
  by (simp add: read_clock_def)

lemma poll_measure:
  assumes "now s - start_time < 1000 * t" and "(x, y) = call log f (read_clock s)"
  shows "start_time + 1000 * t - now (sleep env (Suc 0) y) < start_time + 1000 * t - now s"
proof -
  have "now y = now s" using assms(2) call_now[of log f "read_clock s" x y] by simp
  then have "now s + 1000 \<le> now (sleep env (Suc 0) y)" using sleep_now[of y "Suc 0" env] by simp
  then show ?thesis using assms(1) by linarith
qed

text \<open>The loop \<^verbatim>\<open>while time.time() - start_time < self.download_timeout\<close>; every
  round reads the clock first; a failed listing is slept on and retried.\<close>

function poll_download :: "'w env \<Rightarrow> remover \<Rightarrow> string list \<Rightarrow> string \<Rightarrow> nat \<Rightarrow> 'w world \<Rightarrow> path option \<times> 'w world" where
  "poll_download env rem files_before original_filename start_time s =
     (if now s - start_time < 1000 * download_timeout then
        (case call (\<lambda>r. [Listed (ok r)]) (listdir env (download_folder rem)) (read_clock s) of
           (Inl e, s1) \<Rightarrow>
             poll_download env rem files_before original_filename start_time (sleep env 1 s1)
         | (Inr current_files, s1) \<Rightarrow>
             (case complete_files env files_before current_files of
                [] \<Rightarrow>
                  poll_download env rem files_before original_filename start_time (sleep env 1 s1)
              | downloaded_file # others \<Rightarrow>
                  (case finish_download env rem original_filename downloaded_file s1 of
                     (p, s2) \<Rightarrow> (Some p, s2))))
      else (None, read_clock s))"
  by pat_completeness auto
termination
  by (relation "measure (\<lambda>(env, rem, files_before, original_filename, start_time, s).
                            start_time + 1000 * download_timeout - now s)")
     (auto intro: poll_measure)

declare poll_download.simps [simp del]

definition download_processed_image :: "'w env \<Rightarrow> remover \<Rightarrow> element \<Rightarrow> string \<Rightarrow> 'w world \<Rightarrow> path option \<times> 'w world" where
  "download_processed_image env rem download_button original_filename s =
     (case call (\<lambda>r. [Listed (ok r)]) (listdir env (download_folder rem)) s of
        (Inl e, s1) \<Rightarrow> (None, s1)
      | (Inr files_before, s1) \<Rightarrow>
          (case driver_call rem (execute_script env ''scrollIntoView'') s1 of
             (Inl e, s2) \<Rightarrow> (None, s2)
           | (Inr u, s2) \<Rightarrow>
               (case call quiet (click env download_button) (sleep env 1 s2) of
                  (Inr u', s3) \<Rightarrow>
                    poll_download env rem files_before original_filename (now s3) (read_clock s3)
                | (Inl e, s3) \<Rightarrow>
                    (case driver_call rem (execute_script env ''click'') s3 of
                       (Inl e', s4) \<Rightarrow> (None, s4)
                     | (Inr u', s4) \<Rightarrow>
                         poll_download env rem files_before original_filename (now s4)
                           (read_clock s4)))))"

subsection \<open>process_single_image, process_multiple_images, close\<close>

definition process_single_image :: "'w env \<Rightarrow> remover \<Rightarrow> path \<Rightarrow> 'w world \<Rightarrow> path option \<times> 'w world" where
  "process_single_image env rem image_path s =
     (case navigate_to_site env rem s of
        (False, s1) \<Rightarrow> (None, s1)
      | (True, s1) \<Rightarrow>
          (case upload_image env rem image_path s1 of
             (False, s2) \<Rightarrow> (None, s2)
           | (True, s2) \<Rightarrow>
               (case wait_for_processing_completion env rem (snd (handle_popups env rem s2)) of
                  (None, s4) \<Rightarrow> (None, s4)
                | (Some download_button, s4) \<Rightarrow>
                    download_processed_image env rem download_button (basename image_path)
                      (snd (handle_popups env rem s4)))))"

text \<open>\<^verbatim>\<open>if processed_image:\<close> is Python truthiness: \<^verbatim>\<open>None\<close> and the empty
  string are both false.\<close>

fun truthy :: "string option \<Rightarrow> bool" where
  "truthy None = False"
| "truthy (Some p) = (p \<noteq> [])"

text \<open>The loop \<^verbatim>\<open>for i, image_path in enumerate(image_paths, 1)\<close> with its
  accumulator \<^verbatim>\<open>processed_images\<close>; \<open>n\<close> is \<^verbatim>\<open>len(image_paths)\<close>.\<close>

fun process_images_loop :: "'w env \<Rightarrow> remover \<Rightarrow> nat \<Rightarrow> nat \<Rightarrow> nat \<Rightarrow> path list \<Rightarrow> path list \<Rightarrow> 'w world \<Rightarrow> path list \<times> 'w world" where
  "process_images_loop env rem n delay_between i [] processed_images s = (processed_images, s)"
| "process_images_loop env rem n delay_between i (image_path # rest) processed_images s =
     (case process_single_image env rem image_path s of
        (processed_image, s1) \<Rightarrow>
          process_images_loop env rem n delay_between (Suc i) rest
            (if truthy processed_image then processed_images @ [the processed_image]
             else processed_images)
            (if i < n \<and> 0 < delay_between then sleep env delay_between s1 else s1))"

definition process_multiple_images :: "'w env \<Rightarrow> remover \<Rightarrow> path list \<Rightarrow> nat \<Rightarrow> 'w world \<Rightarrow> path list \<times> 'w world" where
  "process_multiple_images env rem image_paths delay_between s =
     process_images_loop env rem (length image_paths) delay_between 1 image_paths [] s"

definition close :: "'w env \<Rightarrow> remover \<Rightarrow> 'w world \<Rightarrow> remover \<times> 'w world" where
  "close env rem s =
     (case driver rem of
        None \<Rightarrow> (rem, s)
      | Some d \<Rightarrow>
          (case call (\<lambda>r. [ChromeQuit d (ok r \<noteq> None)]) (driver_quit env) s of
             (r, s1) \<Rightarrow> (rem\<lparr>driver := None, wait_set := False\<rparr>, s1)))"

section \<open>A concrete environment\<close>

text \<open>
  A small environment on which the model can be run: the external world is the number
  of downloads the site has delivered. The page offers the upload input
  \<^verbatim>\<open>#uploadImage\<close> and the download button \<^verbatim>\<open>.download-btn\<close>; a click on that
  button puts \<^verbatim>\<open>result.png\<close> into the download folder; the PDF has one page.
\<close>

definition demo_env :: "nat env" where
  "demo_env =
     \<lparr> SELENIUM_AVAILABLE = True,
       PDF2IMAGE_AVAILABLE = True,
       PIL_AVAILABLE = True,
       new_chrome = (\<lambda>w. (Inr 1, w)),
       execute_script = (\<lambda>script w. (Inr (), w)),
       set_page_load_timeout = (\<lambda>t w. (Inr (), w)),
       driver_get = (\<lambda>url w. (Inr (), w)),
       driver_quit = (\<lambda>w. (Inr (), w)),
       wait_presence = (\<lambda>t sel w.
          if sel = ''body'' then (Inr 0, w)
          else if sel = ''#uploadImage'' then (Inr 7, w)
          else (Inl TimeoutException, w)),
       wait_invisible = (\<lambda>t el w. (Inr (), w)),
       wait_clickable = (\<lambda>t sel w.
          if sel = ''.download-btn'' then (Inr 9, w) else (Inl TimeoutException, w)),
       find_element = (\<lambda>sel w.
          if sel = ''body'' then (Inr 0, w) else (Inl WebDriverException, w)),
       is_enabled = (\<lambda>el w. (Inr True, w)),
       is_displayed = (\<lambda>el w. (Inr True, w)),
       click = (\<lambda>el w. (Inr (), if el = 9 then Suc w else w)),
       send_keys = (\<lambda>el keys w. (Inr (), w)),
       abspath = (\<lambda>p. if startswith p ''/'' then p else ''/home/user/'' @ p),
       path_exists = (\<lambda>p w. (True, w)),
       listdir = (\<lambda>p w.
          (Inr (''doc_page_001.png'' # (if w = 0 then [] else [''result.png''])), w)),
       rename = (\<lambda>src dst w. (Inr (), w)),
       getsize = (\<lambda>p w. (Inr 2048, w)),
       makedirs = (\<lambda>p w. (Inr (), w)),
       mkdtemp = (\<lambda>name_prefix w. (Inr (''/tmp/'' @ name_prefix @ ''k3x''), w)),
       rmtree = (\<lambda>p w. (Inr (), w)),
       glob = (\<lambda>folder pattern w. (Inr [join folder ''b.pdf'', join folder ''a.pdf''], w)),
       set_iter = rev,
       print_symbols = (\<lambda>w. (Inr (), w)),
       oversleep = (\<lambda>w. (0, w)),
       convert_from_path = (\<lambda>p dpi fmt w. (Inr [11], w)),
       convert_first_page = (\<lambda>p dpi w. (Inr [11], w)),
       image_save = (\<lambda>img p fmt w. (Inr (), w)),
       count_page_markers = (\<lambda>p w. (Inr 0, w)),
       draw_mock_page = (\<lambda>p page_num page_count w. (Inr 12, w)),
       image_open_rgb = (\<lambda>p w. (Inr 13, w)),
       save_pdf = (\<lambda>imgs p dpi w. (Inr (), w)) \<rparr>"

definition demo_world :: "nat world" where
  "demo_world = \<lparr> ext = 0, now = 0, trace = [] \<rparr>"

definition demo_remover :: remover where
  "demo_remover =
     \<lparr> download_folder = ''/tmp/work'', headless = True, driver = Some 1, wait_set = True \<rparr>"

text \<open>What each image of a batch yielded: the image paths in the order they were
  attempted, each with the result \<open>process_single_image\<close> returned for it in the
  world the batch had reached by then.\<close>

fun attempts :: "'w env \<Rightarrow> remover \<Rightarrow> nat \<Rightarrow> nat \<Rightarrow> nat \<Rightarrow> path list \<Rightarrow> 'w world \<Rightarrow> (path \<times> path option) list" where
  "attempts env rem n delay_between i [] s = []"
| "attempts env rem n delay_between i (image_path # rest) s =
     (case process_single_image env rem image_path s of
        (processed_image, s1) \<Rightarrow>
          (image_path, processed_image) #
          attempts env rem n delay_between (Suc i) rest
            (if i < n \<and> 0 < delay_between then sleep env delay_between s1 else s1))"

definition successes :: "(path \<times> path option) list \<Rightarrow> path list" where
  "successes as = map (\<lambda>a. the (snd a)) (filter (\<lambda>a. truthy (snd a)) as)"

text \<open>What the theorems about \<open>download_processed_image\<close> read from the log: the
  file a listing shows as new and complete, if any; the first such file over the
  listings of a log; and how a path returned relates to the renaming calls.\<close>

fun seen :: "'w env \<Rightarrow> string list \<Rightarrow> string list option \<Rightarrow> string option" where
  "seen env files_before None = None"
| "seen env files_before (Some current_files) =
     (case complete_files env files_before current_files of [] \<Rightarrow> None | f # fs \<Rightarrow> Some f)"

fun first_seen :: "'w env \<Rightarrow> string list \<Rightarrow> event list \<Rightarrow> string option" where
  "first_seen env files_before [] = None"
| "first_seen env files_before (Listed l # es) =
     (case seen env files_before l of
        Some f \<Rightarrow> Some f
      | None \<Rightarrow> first_seen env files_before es)"
| "first_seen env files_before (e # es) = first_seen env files_before es"

definition renamed_or_not :: "path \<Rightarrow> string \<Rightarrow> string \<Rightarrow> event list \<Rightarrow> path \<Rightarrow> bool" where
  "renamed_or_not folder original_filename f fin p =
     (let src = join folder f; dst = join folder (new_name original_filename f)
      in (fin = [Renamed src dst True, Sized dst True] \<and> p = dst)
       \<or> (fin = [Renamed src dst True, Sized dst False] \<and> p = src)
       \<or> (fin = [Renamed src dst False] \<and> p = src))"

text \<open>A listing offers \<open>f\<close>: the file is in it, was not there before the click, and
  its name does not end like a download in progress. The listings of a log.\<close>

definition offers :: "string list \<Rightarrow> string list \<Rightarrow> string \<Rightarrow> bool" where
  "offers files_before current_files f =
     (f \<in> set current_files \<and> f \<notin> set files_before \<and> complete_file f)"

fun listings :: "event list \<Rightarrow> string list list" where
  "listings [] = []"
| "listings (Listed (Some l) # es) = l # listings es"
| "listings (e # es) = listings es"

text \<open>What a run of the polling loop leaves in the log, by its result.\<close>

definition poll_post :: "'w env \<Rightarrow> remover \<Rightarrow> string list \<Rightarrow> string \<Rightarrow> nat \<Rightarrow> path option \<Rightarrow> event list \<Rightarrow> bool" where
  "poll_post env rem fb orig start r evs =
    ((r = None \<longrightarrow> first_seen env fb evs = None \<and>
        (\<exists>pre t. evs = pre @ [Clock t] \<and> 1000 * download_timeout \<le> t - start)) \<and>
     (\<forall>p. r = Some p \<longrightarrow>
        (\<exists>pre t cur f fin. evs = pre @ [Clock t, Listed (Some cur)] @ fin \<and>
           first_seen env fb pre = None \<and> t - start < 1000 * download_timeout \<and>
           seen env fb (Some cur) = Some f \<and> renamed_or_not (download_folder rem) orig f fin p)))"

text \<open>The concrete environment with a site that delivers a file without extension.\<close>

definition noext_env :: "nat env" where
  "noext_env = demo_env\<lparr>listdir := (\<lambda>p w.
          (Inr (''doc_page_001.png'' # (if w = 0 then [] else [''result''])), w))\<rparr>"

text \<open>The concrete environment with a site that delivers two files at once.\<close>

definition two_files_env :: "nat env" where
  "two_files_env = demo_env\<lparr>listdir := (\<lambda>p w.
          (Inr (if w = 0 then [''doc_page_001.png'']
                else [''alpha.jpg'', ''doc_page_001.png'', ''zeta.png'']), w))\<rparr>"

section \<open>PDFToImages\<close>

record pdf_to_images =
  conv_dpi :: nat
  image_format :: string
  conv_temp_folder :: "path option"

text \<open>\<^verbatim>\<open>PDFToImages(dpi=300, image_format='PNG')\<close>.\<close>

definition new_pdf_to_images :: "nat \<Rightarrow> string \<Rightarrow> pdf_to_images" where
  "new_pdf_to_images dpi fmt =
     \<lparr> conv_dpi = dpi, image_format = upper fmt, conv_temp_folder = None \<rparr>"

definition default_dpi :: nat where "default_dpi = 300"

definition conv_create_temp_folder :: "'w env \<Rightarrow> pdf_to_images \<Rightarrow> string \<Rightarrow> 'w world \<Rightarrow> path option \<times> pdf_to_images \<times> 'w world" where
  "conv_create_temp_folder env conv name_prefix s =
     (case call quiet (mkdtemp env name_prefix) s of
        (Inl e, s1) \<Rightarrow> (None, conv, s1)
      | (Inr folder, s1) \<Rightarrow> (Some folder, conv\<lparr>conv_temp_folder := Some folder\<rparr>, s1))"

text \<open>The name of the image of page \<open>i\<close>:
  \<^verbatim>\<open>f"{pdf_name}_page_{i:03d}.{self.image_format.lower()}"\<close>.\<close>

definition image_filename :: "string \<Rightarrow> nat \<Rightarrow> string \<Rightarrow> string" where
  "image_filename pdf_name i extension = pdf_name @ ''_page_'' @ fmt_03d i @ ''.'' @ extension"

text \<open>The loop \<^verbatim>\<open>for i, image in enumerate(images, 1)\<close> of
  \<^verbatim>\<open>_convert_with_pdf2image\<close>; a failing \<^verbatim>\<open>image.save\<close> leaves the loop with
  the exception.\<close>

fun save_pages :: "'w env \<Rightarrow> pdf_to_images \<Rightarrow> string \<Rightarrow> path \<Rightarrow> nat \<Rightarrow> image list \<Rightarrow> path list \<Rightarrow> 'w world \<Rightarrow> (error + path list) \<times> 'w world" where
  "save_pages env conv pdf_name output_folder i [] image_paths s = (Inr image_paths, s)"
| "save_pages env conv pdf_name output_folder i (img # rest) image_paths s =
     (case call (\<lambda>r. [ImageSaved img
                   (join output_folder (image_filename pdf_name i (lower (image_format conv))))
                   (ok r \<noteq> None)])
             (image_save env img
                (join output_folder (image_filename pdf_name i (lower (image_format conv))))
                (image_format conv)) s of
        (Inl e, s1) \<Rightarrow> (Inl e, s1)
      | (Inr u, s1) \<Rightarrow>
          save_pages env conv pdf_name output_folder (Suc i) rest
            (image_paths @ [join output_folder (image_filename pdf_name i (lower (image_format conv)))])
            s1)"

definition convert_with_pdf2image :: "'w env \<Rightarrow> pdf_to_images \<Rightarrow> path \<Rightarrow> path \<Rightarrow> 'w world \<Rightarrow> path list \<times> 'w world" where
  "convert_with_pdf2image env conv pdf_path output_folder s =
     (case call (\<lambda>r. [Rasterize pdf_path (conv_dpi conv) (lower (image_format conv)) (ok r)])
             (convert_from_path env pdf_path (conv_dpi conv) (lower (image_format conv))) s of
        (Inl e, s1) \<Rightarrow> ([], s1)
      | (Inr images, s1) \<Rightarrow>
          (case save_pages env conv (path_stem pdf_path) output_folder 1 images [] s1 of
             (Inl e, s2) \<Rightarrow> ([], s2)
           | (Inr image_paths, s2) \<Rightarrow> (image_paths, s2)))"

text \<open>The mock conversion: one drawn page per \<^verbatim>\<open>/Type /Page\<close> marker counted in
  the file, at least one and at most twenty, always saved as PNG.\<close>

fun mock_pages :: "'w env \<Rightarrow> path \<Rightarrow> path \<Rightarrow> nat \<Rightarrow> nat list \<Rightarrow> path list \<Rightarrow> 'w world \<Rightarrow> (error + path list) \<times> 'w world" where
  "mock_pages env pdf_path output_folder page_count [] image_paths s = (Inr image_paths, s)"
| "mock_pages env pdf_path output_folder page_count (page_num # rest) image_paths s =
     (case call quiet (draw_mock_page env pdf_path (page_num + 1) page_count) s of
        (Inl e, s1) \<Rightarrow> (Inl e, s1)
      | (Inr img, s1) \<Rightarrow>
          (case call (\<lambda>r. [ImageSaved img
                        (join output_folder (image_filename (path_stem pdf_path) (page_num + 1) ''png''))
                        (ok r \<noteq> None)])
                  (image_save env img
                     (join output_folder (image_filename (path_stem pdf_path) (page_num + 1) ''png''))
                     ''PNG'') s1 of
             (Inl e, s2) \<Rightarrow> (Inl e, s2)
           | (Inr u, s2) \<Rightarrow>
               mock_pages env pdf_path output_folder page_count rest
                 (image_paths @
                    [join output_folder (image_filename (path_stem pdf_path) (page_num + 1) ''png'')])
                 s2))"

definition mock_page_count :: "'w env \<Rightarrow> path \<Rightarrow> 'w world \<Rightarrow> nat \<times> 'w world" where
  "mock_page_count env pdf_path s =
     (case call quiet (count_page_markers env pdf_path) s of
        (Inl e, s1) \<Rightarrow> (1, s1)
      | (Inr page_count, s1) \<Rightarrow> (if page_count = 0 then 1 else page_count, s1))"

definition convert_mock :: "'w env \<Rightarrow> pdf_to_images \<Rightarrow> path \<Rightarrow> path \<Rightarrow> 'w world \<Rightarrow> path list \<times> 'w world" where
  "convert_mock env conv pdf_path output_folder s =
     (if \<not> PIL_AVAILABLE env then ([], s)
      else
        case mock_page_count env pdf_path s of
          (page_count, s1) \<Rightarrow>
            (case mock_pages env pdf_path output_folder page_count [0..<min page_count 20] [] s1 of
               (Inl e, s2) \<Rightarrow> ([], s2)
             | (Inr image_paths, s2) \<Rightarrow> (image_paths, s2)))"

text \<open>The folder the images go to: the one given, else the converter's own temporary
  folder, created on first use; \<open>None\<close> stands for the early \<^verbatim>\<open>return []\<close>.\<close>

definition choose_output_folder :: "'w env \<Rightarrow> pdf_to_images \<Rightarrow> path option \<Rightarrow> 'w world \<Rightarrow> path option \<times> pdf_to_images \<times> 'w world" where
  "choose_output_folder env conv output_folder s =
     (if truthy output_folder then (output_folder, conv, s)
      else if \<not> truthy (conv_temp_folder conv) then
        (case conv_create_temp_folder env conv ''pdf_to_images_'' s of
           (created, conv1, s1) \<Rightarrow> (if truthy created then created else None, conv1, s1))
      else (conv_temp_folder conv, conv, s))"

definition convert_pdf_to_images :: "'w env \<Rightarrow> pdf_to_images \<Rightarrow> path \<Rightarrow> path option \<Rightarrow> 'w world \<Rightarrow> path list \<times> pdf_to_images \<times> 'w world" where
  "convert_pdf_to_images env conv pdf_path output_folder s =
     (case call quiet (path_exists env pdf_path) s of
        (False, s1) \<Rightarrow> ([], conv, s1)
      | (True, s1) \<Rightarrow>
          (case choose_output_folder env conv output_folder s1 of
             (None, conv1, s2) \<Rightarrow> ([], conv1, s2)
           | (Some folder, conv1, s2) \<Rightarrow>
               (case (if PDF2IMAGE_AVAILABLE env
                      then convert_with_pdf2image env conv1 pdf_path folder s2
                      else convert_mock env conv1 pdf_path folder s2) of
                  (image_paths, s3) \<Rightarrow> (image_paths, conv1, s3))))"

record pdf_info =
  filename :: string
  file_size :: nat
  total_pages :: "nat option"
  conversion_method :: "string option"

text \<open>\<open>get_pdf_info\<close>: the two \<^verbatim>\<open>os.path.getsize\<close> calls are outside any
  \<^verbatim>\<open>try\<close>, so their exceptions leave the method; with pdf2image the page count
  comes from rasterizing the whole file at 72 DPI.\<close>

definition get_pdf_info :: "'w env \<Rightarrow> pdf_to_images \<Rightarrow> path \<Rightarrow> 'w world \<Rightarrow> (error + pdf_info option) \<times> 'w world" where
  "get_pdf_info env conv pdf_path s =
     (case call quiet (path_exists env pdf_path) s of
        (False, s1) \<Rightarrow> (Inr None, s1)
      | (True, s1) \<Rightarrow>
          (case call quiet (getsize env pdf_path) s1 of
             (Inl e, s2) \<Rightarrow> (Inl e, s2)
           | (Inr size1, s2) \<Rightarrow>
               (case call quiet (getsize env pdf_path) s2 of
                  (Inl e, s3) \<Rightarrow> (Inl e, s3)
                | (Inr size2, s3) \<Rightarrow>
                    (if PDF2IMAGE_AVAILABLE env then
                       (case call (\<lambda>r. [Rasterize pdf_path 72 ''ppm'' (ok r)])
                               (convert_first_page env pdf_path 72) s3 of
                          (Inl e, s4) \<Rightarrow>
                            (Inr (Some \<lparr> filename = basename pdf_path, file_size = size1,
                                total_pages = None, conversion_method = Some ''mock'' \<rparr>), s4)
                        | (Inr test_images, s4) \<Rightarrow>
                            (if test_images = [] then
                               (Inr (Some \<lparr> filename = basename pdf_path, file_size = size1,
                                   total_pages = None, conversion_method = None \<rparr>), s4)
                             else
                               (case call (\<lambda>r. [Rasterize pdf_path 72 ''ppm'' (ok r)])
                                       (convert_from_path env pdf_path 72 ''ppm'') s4 of
                                  (Inl e, s5) \<Rightarrow>
                                    (Inr (Some \<lparr> filename = basename pdf_path, file_size = size1,
                                        total_pages = None, conversion_method = Some ''mock'' \<rparr>), s5)
                                | (Inr all_images, s5) \<Rightarrow>
                                    (Inr (Some \<lparr> filename = basename pdf_path, file_size = size1,
                                        total_pages = Some (length all_images),
                                        conversion_method = Some ''real'' \<rparr>), s5))))
                     else
                       (case call quiet (count_page_markers env pdf_path) s3 of
                          (Inl e, s4) \<Rightarrow>
                            (Inr (Some \<lparr> filename = basename pdf_path, file_size = size1,
                                total_pages = Some 1, conversion_method = Some ''mock'' \<rparr>), s4)
                        | (Inr page_count, s4) \<Rightarrow>
                            (Inr (Some \<lparr> filename = basename pdf_path, file_size = size1,
                                total_pages = Some (max 1 page_count),
                                conversion_method = Some ''mock'' \<rparr>), s4))))))"

section \<open>ImagesToPDF\<close>

record images_to_pdf =
  creator_dpi :: nat
  quality :: nat

text \<open>\<^verbatim>\<open>ImagesToPDF(dpi=300, quality=95)\<close>.\<close>

definition new_images_to_pdf :: "nat \<Rightarrow> images_to_pdf" where
  "new_images_to_pdf dpi = \<lparr> creator_dpi = dpi, quality = 95 \<rparr>"

text \<open>The loop that keeps the paths that exist; a path that does not is reported
  (\<^verbatim>\<open>Advertencia: Imagen no encontrada\<close>, the event \<open>NotFound\<close>) and left out.\<close>

fun existing_paths :: "'w env \<Rightarrow> path list \<Rightarrow> 'w world \<Rightarrow> path list \<times> 'w world" where
  "existing_paths env [] s = ([], s)"
| "existing_paths env (img_path # rest) s =
     (case call (\<lambda>found. if found then [] else [NotFound img_path])
             (path_exists env img_path) s of
        (found, s1) \<Rightarrow>
          (case existing_paths env rest s1 of
             (valid_paths, s2) \<Rightarrow> (if found then img_path # valid_paths else valid_paths, s2)))"

text \<open>The loop that opens the images (\<^verbatim>\<open>Image.open\<close>, converted to RGB where
  needed); an image that cannot be opened is reported and skipped.\<close>

fun open_images :: "'w env \<Rightarrow> path list \<Rightarrow> 'w world \<Rightarrow> image list \<times> 'w world" where
  "open_images env [] s = ([], s)"
| "open_images env (img_path # rest) s =
     (case call (\<lambda>r. [Opened img_path (ok r)]) (image_open_rgb env img_path) s of
        (r, s1) \<Rightarrow>
          (case open_images env rest s1 of
             (processed_images, s2) \<Rightarrow>
               (case r of Inl e \<Rightarrow> processed_images | Inr img \<Rightarrow> img # processed_images, s2)))"

definition ensure_output_dir :: "'w env \<Rightarrow> path \<Rightarrow> 'w world \<Rightarrow> (error + unit) \<times> 'w world" where
  "ensure_output_dir env output_dir s =
     (if output_dir = [] then (Inr (), s)
      else
        case call quiet (path_exists env output_dir) s of
          (True, s1) \<Rightarrow> (Inr (), s1)
        | (False, s1) \<Rightarrow> call quiet (makedirs env output_dir) s1)"

definition convert_images_to_pdf :: "'w env \<Rightarrow> images_to_pdf \<Rightarrow> path list \<Rightarrow> path \<Rightarrow> 'w world \<Rightarrow> bool \<times> 'w world" where
  "convert_images_to_pdf env creator image_paths output_pdf_path s =
     (if \<not> PIL_AVAILABLE env then (False, s)
      else if image_paths = [] then (False, s)
      else
        case existing_paths env (sort_key basename image_paths) s of
          (valid_paths, s1) \<Rightarrow>
            if valid_paths = [] then (False, s1)
            else
              case open_images env valid_paths s1 of
                (processed_images, s2) \<Rightarrow>
                  if processed_images = [] then (False, s2)
                  else
                    case ensure_output_dir env (dirname output_pdf_path) s2 of
                      (Inl e, s3) \<Rightarrow> (False, s3)
                    | (Inr u, s3) \<Rightarrow>
                        (case call (\<lambda>r. [SavePdf output_pdf_path processed_images (ok r \<noteq> None)])
                                (save_pdf env processed_images output_pdf_path (creator_dpi creator))
                                s3 of
                           (Inl e, s4) \<Rightarrow> (False, s4)
                         | (Inr u', s4) \<Rightarrow>
                             (case call quiet (path_exists env output_pdf_path) s4 of
                                (False, s5) \<Rightarrow> (False, s5)
                              | (True, s5) \<Rightarrow>
                                  (case call quiet (getsize env output_pdf_path) s5 of
                                     (Inl e, s6) \<Rightarrow> (False, s6)
                                   | (Inr pdf_size, s6) \<Rightarrow> (True, s6)))))"

text \<open>The concrete environment with one processed page image missing from disk.\<close>

definition missing_env :: "nat env" where
  "missing_env = demo_env\<lparr>path_exists :=
     (\<lambda>p w. (p \<noteq> ''/tmp/work/processed_doc_page_002.png'', w))\<rparr>"

text \<open>What the theorems about \<open>convert_pdf_to_images\<close> read from the log and
  compare the result with: the rasterization calls made, each with its file, DPI and
  format, and the path of the image of page \<open>i\<close>.\<close>

fun rasterizations :: "event list \<Rightarrow> (path \<times> nat \<times> string) list" where
  "rasterizations [] = []"
| "rasterizations (Rasterize p d f r # es) = (p, d, f) # rasterizations es"
| "rasterizations (e # es) = rasterizations es"

definition page_path :: "path \<Rightarrow> string \<Rightarrow> string \<Rightarrow> nat \<Rightarrow> path" where
  "page_path folder pdf_name extension i = join folder (image_filename pdf_name i extension)"

text \<open>The log of the images \<open>images\<close> saved one after the other as the pages \<open>i\<close>,
  \<open>i + 1\<close>, ... of a PDF, every save succeeding.\<close>

definition saved_pages :: "path \<Rightarrow> string \<Rightarrow> string \<Rightarrow> nat \<Rightarrow> image list \<Rightarrow> event list" where
  "saved_pages folder pdf_name extension i images =
     map2 (\<lambda>img k. ImageSaved img (page_path folder pdf_name extension k) True)
       images [i..<i + length images]"

text \<open>Two concrete environments: one without pdf2image, for a file with 25 page
  markers; one where the second page image cannot be saved.\<close>

definition mock_env :: "nat env" where
  "mock_env = demo_env\<lparr>PDF2IMAGE_AVAILABLE := False,
                       count_page_markers := (\<lambda>p w. (Inr 25, w))\<rparr>"

definition save_fail_env :: "nat env" where
  "save_fail_env = demo_env\<lparr>convert_from_path := (\<lambda>p dpi fmt w. (Inr [11, 12], w)),
       image_save := (\<lambda>img p fmt w. (if img = 12 then Inl OSError else Inr (), w))\<rparr>"

text \<open>The path \<open>process_single_image\<close> returns for the image of page \<open>i\<close> when the
  site delivers \<^verbatim>\<open>result.png\<close> and the renaming succeeds: the download folder joined
  with \<open>new_name\<close> of the page image's basename.\<close>

definition processed_page_path :: "path \<Rightarrow> string \<Rightarrow> nat \<Rightarrow> path" where
  "processed_page_path folder pdf_name i =
     join folder (new_name (basename (page_path folder pdf_name ''png'' i)) ''result.png'')"

text \<open>Of the paths \<open>xs\<close>, checked one by one with the outcomes \<open>bs\<close>: those found
  and those not found, each in the order of \<open>xs\<close>.\<close>

definition kept :: "'a list \<Rightarrow> bool list \<Rightarrow> 'a list" where
  "kept xs bs = map fst (filter snd (zip xs bs))"

definition dropped :: "'a list \<Rightarrow> bool list \<Rightarrow> 'a list" where
  "dropped xs bs = map fst (filter (\<lambda>xb. \<not> snd xb) (zip xs bs))"

text \<open>The paths of the images a log shows opened, in the order of opening.\<close>

fun opened :: "event list \<Rightarrow> path list" where
  "opened [] = []"
| "opened (Opened p r # es) = p # opened es"
| "opened (e # es) = opened es"

section \<open>PDFWatermarkProcessor\<close>

record processor =
  output_folder :: path
  proc_headless :: bool
  proc_dpi :: nat
  temp_folder :: "path option"
  pdf_converter :: pdf_to_images
  pdf_creator :: images_to_pdf
  watermark_remover :: "remover option"

text \<open>\<^verbatim>\<open>PDFWatermarkProcessor(output_folder, headless=True, dpi=300)\<close>.\<close>

definition new_processor :: "'w env \<Rightarrow> path \<Rightarrow> bool \<Rightarrow> nat \<Rightarrow> 'w world \<Rightarrow> (error + processor) \<times> 'w world" where
  "new_processor env folder hl dpi s =
     (case call quiet (makedirs env (abspath env folder)) s of
        (Inl e, s1) \<Rightarrow> (Inl e, s1)
      | (Inr u, s1) \<Rightarrow>
          (Inr \<lparr> output_folder = abspath env folder, proc_headless = hl, proc_dpi = dpi,
                 temp_folder = None, pdf_converter = new_pdf_to_images dpi ''PNG'',
                 pdf_creator = new_images_to_pdf dpi, watermark_remover = None \<rparr>, s1))"

definition create_temp_folder :: "'w env \<Rightarrow> processor \<Rightarrow> 'w world \<Rightarrow> bool \<times> processor \<times> 'w world" where
  "create_temp_folder env P s =
     (case call (\<lambda>r. [Mkdtemp (ok r)]) (mkdtemp env ''pdf_watermark_processing_'') s of
        (Inl e, s1) \<Rightarrow> (False, P, s1)
      | (Inr folder, s1) \<Rightarrow> (True, P\<lparr>temp_folder := Some folder\<rparr>, s1))"

text \<open>\<open>cleanup_temp_folder\<close>: nothing happens unless the field is set and the folder
  exists (the outcome of the check is logged); an exception of \<^verbatim>\<open>shutil.rmtree\<close> is
  printed and swallowed, and the field is reset only after a deletion that succeeded.\<close>

definition cleanup_temp_folder :: "'w env \<Rightarrow> processor \<Rightarrow> 'w world \<Rightarrow> processor \<times> 'w world" where
  "cleanup_temp_folder env P s =
     (if \<not> truthy (temp_folder P) then (P, s)
      else
        case call (\<lambda>found. [FolderExists (the (temp_folder P)) found])
               (path_exists env (the (temp_folder P))) s of
          (False, s1) \<Rightarrow> (P, s1)
        | (True, s1) \<Rightarrow>
            (case call (\<lambda>r. [Rmtree (the (temp_folder P)) (ok r \<noteq> None)])
                    (rmtree env (the (temp_folder P))) s1 of
               (Inl e, s2) \<Rightarrow> (P, s2)
             | (Inr u, s2) \<Rightarrow> (P\<lparr>temp_folder := None\<rparr>, s2)))"

text \<open>\<^verbatim>\<open>print("\nPASO k: ...")\<close>: the line that announces step \<open>k\<close>.\<close>

definition paso :: "nat \<Rightarrow> 'w world \<Rightarrow> 'w world" where
  "paso k s = s\<lparr>trace := trace s @ [Paso k]\<rparr>"

text \<open>The lines that announce the steps 3 and 5 hold the arrow U+2192; their
  \<^verbatim>\<open>print\<close> raises on a standard output that cannot encode it.\<close>

definition paso_symbols :: "'w env \<Rightarrow> nat \<Rightarrow> 'w world \<Rightarrow> (error + unit) \<times> 'w world" where
  "paso_symbols env k s =
     call (\<lambda>r. if ok r = None then [] else [Paso k]) (print_symbols env) s"

text \<open>Step 4: a new remover on the temporary folder, the browser, the images one by
  one, and the inner \<^verbatim>\<open>finally\<close> that closes the browser. \<open>Inr None\<close> stands for
  \<^verbatim>\<open>return None\<close>, \<open>Inl\<close> for an exception on its way to the outer handler.\<close>

definition web_step :: "'w env \<Rightarrow> processor \<Rightarrow> path list \<Rightarrow> 'w world \<Rightarrow> (error + path list option) \<times> processor \<times> 'w world" where
  "web_step env P image_paths s =
     (case temp_folder P of
        None \<Rightarrow> (Inl TypeError, P, s)
      | Some folder \<Rightarrow>
          (case new_remover env folder (proc_headless P) s of
             (Inl e, s1) \<Rightarrow> (Inl e, P, s1)
           | (Inr rem0, s1) \<Rightarrow>
               (case setup_chrome env rem0 s1 of
                  (False, rem1, s2) \<Rightarrow> (Inr None, P\<lparr>watermark_remover := Some rem1\<rparr>, s2)
                | (True, rem1, s2) \<Rightarrow>
                    (case process_multiple_images env rem1 image_paths 2 s2 of
                       (processed_images, s3) \<Rightarrow>
                         (case close env rem1 s3 of
                            (rem2, s4) \<Rightarrow>
                              (Inr (if processed_images = [] then None else Some processed_images),
                               P\<lparr>watermark_remover := Some rem2\<rparr>, s4))))))"

text \<open>The statistics printed after a successful reassembly: the two sizes and their
  ratio \<^verbatim>\<open>final_size/original_size\<close>, a division that raises for an original of
  size zero.\<close>

definition final_statistics :: "'w env \<Rightarrow> path \<Rightarrow> path \<Rightarrow> 'w world \<Rightarrow> (error + unit) \<times> 'w world" where
  "final_statistics env final_pdf_path pdf_path s =
     (case call quiet (path_exists env final_pdf_path) s of
        (False, s1) \<Rightarrow> (Inr (), s1)
      | (True, s1) \<Rightarrow>
          (case call quiet (getsize env final_pdf_path) s1 of
             (Inl e, s2) \<Rightarrow> (Inl e, s2)
           | (Inr final_size, s2) \<Rightarrow>
               (case call quiet (getsize env pdf_path) s2 of
                  (Inl e, s3) \<Rightarrow> (Inl e, s3)
                | (Inr original_size, s3) \<Rightarrow>
                    (if original_size = 0 then (Inl ZeroDivisionError, s3) else (Inr (), s3)))))"

definition final_name :: "path \<Rightarrow> string option \<Rightarrow> string" where
  "final_name pdf_path output_filename =
     (if truthy output_filename then the output_filename
      else ''NoWatermark_'' @ path_stem pdf_path @ ''.pdf'')"

text \<open>The body of the \<^verbatim>\<open>try\<close> of \<open>process_single_pdf\<close>, steps 1 to 5.\<close>

definition process_steps :: "'w env \<Rightarrow> processor \<Rightarrow> path \<Rightarrow> string option \<Rightarrow> 'w world \<Rightarrow> (error + path option) \<times> processor \<times> 'w world" where
  "process_steps env P pdf_path output_filename s =
     (case create_temp_folder env P (paso 1 s) of
        (False, P1, s1) \<Rightarrow> (Inr None, P1, s1)
      | (True, P1, s1) \<Rightarrow>
          (case get_pdf_info env (pdf_converter P1) pdf_path (paso 2 s1) of
             (Inl e, s2) \<Rightarrow> (Inl e, P1, s2)
           | (Inr info, s2) \<Rightarrow>
               (case paso_symbols env 3 s2 of
                  (Inl e, s2') \<Rightarrow> (Inl e, P1, s2')
                | (Inr u3, s2') \<Rightarrow>
                    (case convert_pdf_to_images env (pdf_converter P1) pdf_path (temp_folder P1)
                            s2' of
                       (image_paths, conv1, s3) \<Rightarrow>
                         if image_paths = [] then (Inr None, P1\<lparr>pdf_converter := conv1\<rparr>, s3)
                         else
                           (case web_step env (P1\<lparr>pdf_converter := conv1\<rparr>) image_paths
                                   (paso 4 s3) of
                              (Inl e, P3, s4) \<Rightarrow> (Inl e, P3, s4)
                            | (Inr None, P3, s4) \<Rightarrow> (Inr None, P3, s4)
                            | (Inr (Some processed_images), P3, s4) \<Rightarrow>
                                (case paso_symbols env 5 s4 of
                                   (Inl e, s4') \<Rightarrow> (Inl e, P3, s4')
                                 | (Inr u5, s4') \<Rightarrow>
                                     (case convert_images_to_pdf env (pdf_creator P3)
                                             processed_images
                                             (join (output_folder P3)
                                                (final_name pdf_path output_filename))
                                             s4' of
                                        (False, s5) \<Rightarrow> (Inr None, P3, s5)
                                      | (True, s5) \<Rightarrow>
                                          (case final_statistics env
                                                  (join (output_folder P3)
                                                     (final_name pdf_path output_filename))
                                                  pdf_path s5 of
                                             (Inl e, s6) \<Rightarrow> (Inl e, P3, s6)
                                           | (Inr u, s6) \<Rightarrow>
                                               (Inr (Some (join (output_folder P3)
                                                       (final_name pdf_path output_filename))),
                                                P3, s6)))))))))"

text \<open>The outer \<^verbatim>\<open>finally\<close>: close the remover if there is one, then clean up.\<close>

definition close_remover :: "'w env \<Rightarrow> processor \<Rightarrow> 'w world \<Rightarrow> processor \<times> 'w world" where
  "close_remover env P s =
     (case watermark_remover P of
        None \<Rightarrow> (P, s)
      | Some rem \<Rightarrow>
          (case close env rem s of (rem', s1) \<Rightarrow> (P\<lparr>watermark_remover := Some rem'\<rparr>, s1)))"

definition process_single_pdf :: "'w env \<Rightarrow> processor \<Rightarrow> path \<Rightarrow> string option \<Rightarrow> 'w world \<Rightarrow> path option \<times> processor \<times> 'w world" where
  "process_single_pdf env P pdf_path output_filename s =
     (case call quiet (path_exists env pdf_path) s of
        (False, s0) \<Rightarrow> (None, P, s0)
      | (True, s0) \<Rightarrow>
          (case process_steps env P pdf_path output_filename s0 of
             (r, P1, s1) \<Rightarrow>
               (case close_remover env P1 s1 of
                  (P2, s2) \<Rightarrow>
                    (case cleanup_temp_folder env P2 s2 of
                       (P3, s3) \<Rightarrow> (case r of Inl e \<Rightarrow> None | Inr v \<Rightarrow> v, P3, s3)))))"

subsection \<open>process_multiple_pdfs\<close>







text \<open>A processor as its constructor leaves it, and two more concrete environments:
  a host without pdf2image on which the PDF is an empty file, and one where the
  temporary folder cannot be removed.\<close>

definition demo_processor :: processor where
  "demo_processor =
     \<lparr> output_folder = ''/out'', proc_headless = True, proc_dpi = 300, temp_folder = None,
       pdf_converter = new_pdf_to_images 300 ''PNG'', pdf_creator = new_images_to_pdf 300,
       watermark_remover = None \<rparr>"

definition empty_pdf_env :: "nat env" where
  "empty_pdf_env = demo_env\<lparr>PDF2IMAGE_AVAILABLE := False,
       getsize := (\<lambda>p w. (Inr (if p = ''/in/empty.pdf'' then 0 else 2048), w)),
       listdir := (\<lambda>p w.
          (Inr (''empty_page_001.png'' # (if w = 0 then [] else [''result.png''])), w))\<rparr>"

definition rmtree_fail_env :: "nat env" where
  "rmtree_fail_env = demo_env\<lparr>rmtree := (\<lambda>p w. (Inl OSError, w))\<rparr>"



text \<open>The part of the log that concerns the resources of a run: the browsers started
  and quit, the temporary folders made and removed.\<close>

fun resource_event :: "event \<Rightarrow> bool" where
  "resource_event (ChromeStarted d) = True"
| "resource_event (ChromeQuit d b) = True"
| "resource_event (Mkdtemp m) = True"
| "resource_event (Rmtree f b) = True"
| "resource_event (FolderExists f b) = True"
| "resource_event e = False"

definition resource_log :: "'w world \<Rightarrow> event list" where
  "resource_log s = filter resource_event (trace s)"

text \<open>How the browser events \<open>C\<close> of the steps relate the remover the processor
  holds afterwards (\<open>P'\<close>) to the one it held before (\<open>P\<close>): no browser was
  started; or one was started and is still the remover's driver; or one was started
  and quit.\<close>

definition chrome_part :: "processor \<Rightarrow> processor \<Rightarrow> event list \<Rightarrow> bool" where
  "chrome_part P P' C =
     ((C = [] \<and> (watermark_remover P' = watermark_remover P
                 \<or> (\<exists>rem. watermark_remover P' = Some rem \<and> driver rem = None)))
      \<or> (\<exists>d rem. C = [ChromeStarted d] \<and> watermark_remover P' = Some rem \<and> driver rem = Some d)
      \<or> (\<exists>d b rem. C = [ChromeStarted d, ChromeQuit d b] \<and> watermark_remover P' = Some rem
             \<and> driver rem = None))"


section \<open>Properties of find_upload_input\<close>

lemma probed_append: "probed (xs @ ys) = probed xs @ probed ys"
  by (induction xs rule: probed.induct) auto

lemma call_trace:
  "call log f s = (r, s') \<Longrightarrow> trace s' = trace s @ log r \<and> now s' = now s"
  by (auto simp: call_def Let_def split: prod.splits)

lemma wait_until_present_trace:
  "wait_until_present env rem sel s = (r, s') \<Longrightarrow> wait_set rem \<Longrightarrow>
     trace s' = trace s @ [WaitPresence sel (ok r)]"
  by (auto simp: wait_until_present_def dest: call_trace split: if_splits)

lemma element_is_enabled_trace:
  "element_is_enabled env el s = (r, s') \<Longrightarrow> trace s' = trace s @ [IsEnabled el (ok r)]"
  by (auto simp: element_is_enabled_def dest: call_trace)

text \<open>One round of the loop either returns the element just found and enabled, or goes
  on with the rest of the list after logging a miss.\<close>

lemma probe_selectors_Cons_cases:
  assumes "probe_selectors env rem (a # sels) s = (r, s')" and "wait_set rem"
  shows "(\<exists>el. r = Some el \<and> trace s' = trace s @ [WaitPresence a (Some el), IsEnabled el (Some True)]) \<or>
    (\<exists>s1 ev. probe_selectors env rem sels s1 = (r, s') \<and> trace s1 = trace s @ ev
        \<and> probed ev = [a] \<and> \<not> list_ex enabled_hit ev)"
proof -
  obtain w s1 where w: "wait_until_present env rem a s = (w, s1)" by force
  note t1 = wait_until_present_trace[OF w assms(2)]
  show ?thesis
  proof (cases w)
    case (Inl e)
    with assms w have "probe_selectors env rem sels s1 = (r, s')" by simp
    moreover have "trace s1 = trace s @ [WaitPresence a None]" using t1 Inl by simp
    ultimately show ?thesis by fastforce
  next
    case (Inr el)
    obtain b s2 where b: "element_is_enabled env el s1 = (b, s2)" by force
    note t2 = element_is_enabled_trace[OF b]
    show ?thesis
    proof (cases "b = Inr True")
      case True
      with assms w Inr b have "r = Some el" "s' = s2" by auto
      then show ?thesis using t1 t2 Inr True by simp
    next
      case False
      with assms w Inr b have "probe_selectors env rem sels s2 = (r, s')"
        by (cases b) (auto split: bool.splits)
      moreover have "trace s2 = trace s @ [WaitPresence a (Some el), IsEnabled el (ok b)]"
        using t1 t2 Inr by simp
      moreover have "\<not> enabled_hit (IsEnabled el (ok b))"
        using False by (cases b) auto
      ultimately show ?thesis by fastforce
    qed
  qed
qed

lemma probe_selectors_spec:
  "probe_selectors env rem sels s = (r, s') \<Longrightarrow> wait_set rem \<Longrightarrow>
   \<exists>new. trace s' = trace s @ new \<and>
     (\<exists>k\<le>length sels. probed new = take k sels) \<and>
     (r = None \<longrightarrow> probed new = sels \<and> \<not> list_ex enabled_hit new) \<and>
     (\<forall>el. r = Some el \<longrightarrow>
        (\<exists>pre sel. new = pre @ [WaitPresence sel (Some el), IsEnabled el (Some True)]
           \<and> \<not> list_ex enabled_hit pre))"
proof (induction sels arbitrary: s)
  case Nil
  then show ?case by auto
next
  case (Cons a sels)
  from probe_selectors_Cons_cases[OF Cons.prems]
  show ?case
  proof (elim disjE exE conjE)
    fix el assume r: "r = Some el"
      and t: "trace s' = trace s @ [WaitPresence a (Some el), IsEnabled el (Some True)]"
    have "probed [WaitPresence a (Some el), IsEnabled el (Some True)] = take 1 (a # sels)" by simp
    then have "\<exists>k\<le>length (a # sels). probed [WaitPresence a (Some el), IsEnabled el (Some True)] = take k (a # sels)"
      by (metis One_nat_def Suc_le_mono length_Cons zero_le)
    moreover have "[WaitPresence a (Some el), IsEnabled el (Some True)] = [] @ [WaitPresence a (Some el), IsEnabled el (Some True)] \<and> \<not> list_ex enabled_hit []"
      by simp
    ultimately show ?thesis using r t by blast
  next
    fix s1 ev assume rec: "probe_selectors env rem sels s1 = (r, s')"
      and t: "trace s1 = trace s @ ev" and p: "probed ev = [a]" and h: "\<not> list_ex enabled_hit ev"
    from Cons.IH[OF rec Cons.prems(2)] obtain new k where new: "trace s' = trace s1 @ new"
      "k \<le> length sels" "probed new = take k sels"
      "r = None \<longrightarrow> probed new = sels \<and> \<not> list_ex enabled_hit new"
      "\<forall>el. r = Some el \<longrightarrow>
        (\<exists>pre sel. new = pre @ [WaitPresence sel (Some el), IsEnabled el (Some True)]
           \<and> \<not> list_ex enabled_hit pre)" by blast
    have 1: "trace s' = trace s @ (ev @ new)" using new(1) t by simp
    have "probed (ev @ new) = take (Suc k) (a # sels)" using p new(3) by (simp add: probed_append)
    then have 2: "\<exists>k\<le>length (a # sels). probed (ev @ new) = take k (a # sels)"
      using new(2) by (metis Suc_le_mono length_Cons)
    have 3: "r = None \<longrightarrow> probed (ev @ new) = a # sels \<and> \<not> list_ex enabled_hit (ev @ new)"
      using new(4) p h by (simp add: probed_append)
    have 4: "\<forall>el. r = Some el \<longrightarrow>
        (\<exists>pre sel. ev @ new = pre @ [WaitPresence sel (Some el), IsEnabled el (Some True)]
           \<and> \<not> list_ex enabled_hit pre)"
    proof (intro allI impI)
      fix el assume "r = Some el"
      with new(5) obtain pre sel where "new = pre @ [WaitPresence sel (Some el), IsEnabled el (Some True)]"
        "\<not> list_ex enabled_hit pre" by blast
      then have "ev @ new = (ev @ pre) @ [WaitPresence sel (Some el), IsEnabled el (Some True)]
           \<and> \<not> list_ex enabled_hit (ev @ pre)" using h by simp
      then show "\<exists>pre sel. ev @ new = pre @ [WaitPresence sel (Some el), IsEnabled el (Some True)]
           \<and> \<not> list_ex enabled_hit pre" by blast
    qed
    from 1 2 3 4 show ?thesis by blast
  qed
qed

lemma probe_selectors_no_wait:
  "\<not> wait_set rem \<Longrightarrow> probe_selectors env rem sels s = (None, s)"
  by (induction sels) (auto simp: wait_until_present_def)

lemma length_upload_selectors: "length upload_selectors = 6"
  by (simp add: upload_selectors_def)

lemma distinct_upload_selectors: "distinct upload_selectors"
  by (simp add: upload_selectors_def)

text \<open>
  Claim C5. \<open>find_upload_input\<close> works through a fixed list of six distinct CSS
  selectors. The selectors it waits for during one call are an initial segment of that
  list, in the list's order, so none is tried twice and the list is not restarted. When
  it returns an element, the last two calls were the wait that found this element and
  the check that reported it enabled, and no earlier check reported an enabled element:
  it is the first element found and enabled. When it returns \<open>None\<close>, no check
  reported an enabled element, and (the waiter being set up) all six selectors were
  tried.
\<close>

theorem find_upload_input_first_enabled:
  assumes "find_upload_input env rem s = (r, s')"
  shows "length upload_selectors = 6 \<and> distinct upload_selectors \<and>
    (\<exists>k\<le>6. probed (new_events s s') = take k upload_selectors) \<and>
    (r = None \<longrightarrow>
       (wait_set rem \<longrightarrow> probed (new_events s s') = upload_selectors) \<and>
       \<not> list_ex enabled_hit (new_events s s')) \<and>
    (\<forall>el. r = Some el \<longrightarrow>
       (\<exists>pre sel. new_events s s' = pre @ [WaitPresence sel (Some el), IsEnabled el (Some True)]
          \<and> \<not> list_ex enabled_hit pre))"
proof (cases "wait_set rem")
  case True
  from assms have "probe_selectors env rem upload_selectors s = (r, s')"
    by (simp add: find_upload_input_def)
  from probe_selectors_spec[OF this True] obtain new where new:
    "trace s' = trace s @ new"
    "\<exists>k\<le>length upload_selectors. probed new = take k upload_selectors"
    "r = None \<longrightarrow> probed new = upload_selectors \<and> \<not> list_ex enabled_hit new"
    "\<forall>el. r = Some el \<longrightarrow>
        (\<exists>pre sel. new = pre @ [WaitPresence sel (Some el), IsEnabled el (Some True)]
           \<and> \<not> list_ex enabled_hit pre)" by blast
  have "new_events s s' = new" using new(1) by (simp add: new_events_def)
  then show ?thesis
    using new(2,3,4) length_upload_selectors distinct_upload_selectors by simp
next
  case False
  with assms have "r = None" "s' = s"
    by (simp_all add: find_upload_input_def probe_selectors_no_wait)
  then have "new_events s s' = []" by (simp add: new_events_def)
  moreover have "\<exists>k\<le>6. ([]::string list) = take k upload_selectors"
    by (rule exI[of _ 0]) simp
  ultimately show ?thesis
    using False \<open>r = None\<close> length_upload_selectors distinct_upload_selectors by simp
qed

theorem find_upload_input_first_enabled_witness:
  "find_upload_input demo_env demo_remover demo_world =
     (Some 7, demo_world\<lparr>trace :=
        [WaitPresence ''input[type='file']'' None,
         WaitPresence ''#uploadImage'' (Some 7), IsEnabled 7 (Some True)]\<rparr>)
   \<and> probed (new_events demo_world (snd (find_upload_input demo_env demo_remover demo_world)))
       = take 2 upload_selectors
   \<and> (\<exists>pre sel. new_events demo_world (snd (find_upload_input demo_env demo_remover demo_world))
         = pre @ [WaitPresence sel (Some 7), IsEnabled 7 (Some True)] \<and> \<not> list_ex enabled_hit pre)"
proof -
  have run: "find_upload_input demo_env demo_remover demo_world =
     (Some 7, demo_world\<lparr>trace :=
        [WaitPresence ''input[type='file']'' None,
         WaitPresence ''#uploadImage'' (Some 7), IsEnabled 7 (Some True)]\<rparr>)"
    by (simp add: find_upload_input_def upload_selectors_def wait_until_present_def
        element_is_enabled_def call_def demo_env_def demo_remover_def demo_world_def page_timeout_def)
  have p: "probed (new_events demo_world (snd (find_upload_input demo_env demo_remover demo_world)))
       = take 2 upload_selectors"
    unfolding run by (simp add: new_events_def demo_world_def upload_selectors_def)
  from find_upload_input_first_enabled[OF run] run p show ?thesis by simp
qed

section \<open>Properties of process_multiple_images\<close>

lemma successes_Cons:
  "successes ((p, r) # as) = (if truthy r then the r # successes as else successes as)"
  by (simp add: successes_def)

lemma attempts_sources: "map fst (attempts env rem n d i paths s) = paths"
  by (induction paths arbitrary: i s) (auto split: prod.splits)

lemma process_images_loop_attempts:
  "fst (process_images_loop env rem n d i paths acc s) =
     acc @ successes (attempts env rem n d i paths s)"
proof (induction paths arbitrary: i acc s)
  case Nil
  then show ?case by (simp add: successes_def)
next
  case (Cons p paths)
  obtain r s1 where r: "process_single_image env rem p s = (r, s1)" by force
  show ?case
    using r by (simp add: Cons.IH successes_Cons)
qed

text \<open>
  Claim C1. \<open>process_multiple_images\<close> attempts every image of the list, one after
  the other in list order, whatever the earlier images yielded (the attempts are the
  input list itself); an image whose processing yields nothing is skipped; and the list
  returned holds exactly the results of the attempts that yielded one, in the order of
  their sources. \<open>process_single_image\<close> returns a value for every outcome of the
  browser, so no exception leaves the loop.
\<close>

theorem process_multiple_images_keeps_successes:
  "map fst (attempts env rem (length image_paths) delay_between 1 image_paths s) = image_paths \<and>
   fst (process_multiple_images env rem image_paths delay_between s) =
     successes (attempts env rem (length image_paths) delay_between 1 image_paths s)"
  by (simp add: attempts_sources process_multiple_images_def process_images_loop_attempts)

section \<open>Properties of download_processed_image\<close>


lemma sleep_trace [simp]: "trace (sleep env n s) = trace s"
  by (auto simp: sleep_def call_def quiet_def Let_def split: prod.splits)

lemma read_clock_trace [simp]: "trace (read_clock s) = trace s @ [Clock (now s)]"
  by (simp add: read_clock_def)

lemma set_new_files:
  assumes "\<And>xs. set (set_iter env xs) = set xs"
  shows "set (new_files env fb cur) = {f \<in> set cur. f \<notin> set fb}"
  by (auto simp: new_files_def assms)

lemma set_complete_files:
  assumes "\<And>xs. set (set_iter env xs) = set xs"
  shows "set (complete_files env fb cur) = {f. offers fb cur f}"
  by (auto simp: complete_files_def offers_def set_new_files[OF assms])

lemma seen_SomeD:
  assumes "seen env fb l = Some f" and iter: "\<And>xs. set (set_iter env xs) = set xs"
  shows "\<exists>cur. l = Some cur \<and> offers fb cur f \<and> f = hd (complete_files env fb cur)"
proof (cases l)
  case None
  with assms(1) show ?thesis by simp
next
  case (Some cur)
  with assms(1) obtain fs where fs: "complete_files env fb cur = f # fs"
    by (auto split: list.splits)
  then have "f \<in> set (complete_files env fb cur)" by simp
  then have "offers fb cur f" unfolding set_complete_files[OF iter] by simp
  with Some fs show ?thesis by simp
qed

lemma seen_None_iff:
  assumes iter: "\<And>xs. set (set_iter env xs) = set xs"
  shows "seen env fb (Some cur) = None \<longleftrightarrow> (\<forall>g. \<not> offers fb cur g)"
proof -
  have "seen env fb (Some cur) = None \<longleftrightarrow> set (complete_files env fb cur) = {}"
    by (cases "complete_files env fb cur") auto
  then show ?thesis unfolding set_complete_files[OF iter] by auto
qed

lemma first_seen_append:
  "first_seen env fb (xs @ ys) =
     (case first_seen env fb xs of Some f \<Rightarrow> Some f | None \<Rightarrow> first_seen env fb ys)"
  by (induction env fb xs rule: first_seen.induct) (auto split: option.splits)

lemma first_seen_None_listings:
  assumes iter: "\<And>xs. set (set_iter env xs) = set xs"
  shows "first_seen env fb evs = None \<Longrightarrow> \<forall>l\<in>set (listings evs). \<forall>g. \<not> offers fb l g"
proof (induction evs rule: listings.induct)
  case 1
  show ?case by simp
next
  case (2 l es)
  from "2.prems" have a: "seen env fb (Some l) = None" "first_seen env fb es = None"
    by (auto split: option.splits)
  from a(1) have "\<forall>g. \<not> offers fb l g" unfolding seen_None_iff[OF iter] .
  with "2.IH"[OF a(2)] show ?case by simp
qed (auto split: option.splits)

lemma finish_download_spec:
  assumes "finish_download env rem orig f s = (p, s')"
  shows "\<exists>fin. trace s' = trace s @ fin \<and> now s' = now s \<and> renamed_or_not (download_folder rem) orig f fin p"
proof -
  let ?src = "join (download_folder rem) f"
  let ?dst = "join (download_folder rem) (new_name orig f)"
  obtain r1 s1 where r1: "call (\<lambda>r. [Renamed ?src ?dst (ok r \<noteq> None)]) (rename env ?src ?dst) s = (r1, s1)"
    by force
  note t1 = call_trace[OF r1]
  show ?thesis
  proof (cases r1)
    case (Inl e)
    with assms r1 have "p = ?src" "s' = s1" by (auto simp: finish_download_def Let_def)
    then show ?thesis using t1 Inl by (simp add: renamed_or_not_def Let_def)
  next
    case (Inr u)
    obtain r2 s2 where r2: "call (\<lambda>r. [Sized ?dst (ok r \<noteq> None)]) (getsize env ?dst) s1 = (r2, s2)"
      by force
    note t2 = call_trace[OF r2]
    show ?thesis
    proof (cases r2)
      case (Inl e)
      with assms r1 r2 Inr have "p = ?src" "s' = s2" by (auto simp: finish_download_def Let_def)
      then show ?thesis using t1 t2 Inl Inr by (simp add: renamed_or_not_def Let_def)
    next
      case (Inr n)
      with assms r1 r2 \<open>r1 = Inr u\<close> have "p = ?dst" "s' = s2" by (auto simp: finish_download_def Let_def)
      then show ?thesis using t1 t2 Inr \<open>r1 = Inr u\<close> by (simp add: renamed_or_not_def Let_def)
    qed
  qed
qed

lemma poll_post_step:
  assumes "poll_post env rem fb orig start r evs" and "seen env fb l = None"
  shows "poll_post env rem fb orig start r (Clock t0 # Listed l # evs)"
  unfolding poll_post_def
proof (intro conjI impI allI)
  assume "r = None"
  with assms(1) obtain pre t where "first_seen env fb evs = None" "evs = pre @ [Clock t]"
    "1000 * download_timeout \<le> t - start" by (auto simp: poll_post_def)
  then show "first_seen env fb (Clock t0 # Listed l # evs) = None" using assms(2) by simp
  from \<open>evs = pre @ [Clock t]\<close> have "Clock t0 # Listed l # evs = (Clock t0 # Listed l # pre) @ [Clock t]" by simp
  with \<open>1000 * download_timeout \<le> t - start\<close>
  show "\<exists>pre t. Clock t0 # Listed l # evs = pre @ [Clock t] \<and> 1000 * download_timeout \<le> t - start"
    by blast
next
  fix p assume "r = Some p"
  with assms(1) obtain pre t cur f fin where x: "evs = pre @ [Clock t, Listed (Some cur)] @ fin"
           "first_seen env fb pre = None" "t - start < 1000 * download_timeout"
           "seen env fb (Some cur) = Some f" "renamed_or_not (download_folder rem) orig f fin p"
    unfolding poll_post_def by blast
  have "Clock t0 # Listed l # evs = (Clock t0 # Listed l # pre) @ [Clock t, Listed (Some cur)] @ fin"
    using x(1) by simp
  moreover have "first_seen env fb (Clock t0 # Listed l # pre) = None" using x(2) assms(2) by simp
  ultimately show "\<exists>pre t cur f fin. Clock t0 # Listed l # evs = pre @ [Clock t, Listed (Some cur)] @ fin \<and>
           first_seen env fb pre = None \<and> t - start < 1000 * download_timeout \<and>
           seen env fb (Some cur) = Some f \<and> renamed_or_not (download_folder rem) orig f fin p"
    using x(3,4,5) by blast
qed

lemma poll_download_spec:
  "poll_download env rem fb orig start s = (r, s') \<Longrightarrow>
     \<exists>evs. trace s' = trace s @ evs \<and> poll_post env rem fb orig start r evs"
proof (induction env rem fb orig start s rule: poll_download.induct)
  case (1 env rem fb orig start s)
  show ?case
  proof (cases "now s - start < 1000 * download_timeout")
    case False
    with "1.prems" have "r = None" "s' = read_clock s"
      by (simp_all add: poll_download.simps[of env rem fb orig start s])
    then have "trace s' = trace s @ [Clock (now s)]" by simp
    moreover have "poll_post env rem fb orig start r [Clock (now s)]"
      using False \<open>r = None\<close> by (simp add: poll_post_def)
    ultimately show ?thesis by blast
  next
    case True
    obtain l s1 where l: "call (\<lambda>r. [Listed (ok r)]) (listdir env (download_folder rem)) (read_clock s) = (l, s1)"
      by force
    from call_trace[OF l] have t1: "trace s1 = trace s @ [Clock (now s), Listed (ok l)]" by simp
    show ?thesis
    proof (cases "seen env fb (ok l)")
      case None
      have rec: "poll_download env rem fb orig start (sleep env 1 s1) = (r, s')"
      proof (cases l)
        case (Inl e)
        with "1.prems" True l show ?thesis
          by (simp add: poll_download.simps[of env rem fb orig start s])
      next
        case (Inr cur)
        with None have "complete_files env fb cur = []" by (simp split: list.splits)
        with "1.prems" True l Inr show ?thesis
          by (simp add: poll_download.simps[of env rem fb orig start s])
      qed
      have "\<exists>evs. trace s' = trace (sleep env 1 s1) @ evs \<and> poll_post env rem fb orig start r evs"
      proof (cases l)
        case (Inl e)
        from "1.IH"(1)[OF True l[symmetric] Inl rec] show ?thesis .
      next
        case (Inr cur)
        with None have "complete_files env fb cur = []" by (simp split: list.splits)
        from "1.IH"(2)[OF True l[symmetric] Inr this rec] show ?thesis .
      qed
      then obtain evs where evs: "trace s' = trace s1 @ evs" "poll_post env rem fb orig start r evs"
        by auto
      have "trace s' = trace s @ (Clock (now s) # Listed (ok l) # evs)" using evs(1) t1 by simp
      moreover have "poll_post env rem fb orig start r (Clock (now s) # Listed (ok l) # evs)"
        using poll_post_step[OF evs(2) None] .
      ultimately show ?thesis by blast
    next
      case (Some f)
      then obtain cur where cur: "l = Inr cur" by (cases l) auto
      with Some obtain fs where cf: "complete_files env fb cur = f # fs" by (auto split: list.splits)
      obtain p s2 where fin: "finish_download env rem orig f s1 = (p, s2)" by force
      with "1.prems" True l cur cf have "r = Some p" "s' = s2"
        by (simp_all add: poll_download.simps[of env rem fb orig start s])
      from finish_download_spec[OF fin] obtain fin_evs where fe: "trace s2 = trace s1 @ fin_evs"
        "renamed_or_not (download_folder rem) orig f fin_evs p" by blast
      have "trace s' = trace s @ ([] @ [Clock (now s), Listed (Some cur)] @ fin_evs)"
        using fe(1) t1 cur \<open>s' = s2\<close> by simp
      moreover have "poll_post env rem fb orig start r ([] @ [Clock (now s), Listed (Some cur)] @ fin_evs)"
        unfolding poll_post_def
      proof (intro conjI impI allI)
        assume "r = None"
        with \<open>r = Some p\<close> show "first_seen env fb ([] @ [Clock (now s), Listed (Some cur)] @ fin_evs) = None"
          and "\<exists>pre t. [] @ [Clock (now s), Listed (Some cur)] @ fin_evs = pre @ [Clock t] \<and>
                 1000 * download_timeout \<le> t - start" by simp_all
      next
        fix q assume "r = Some q"
        with \<open>r = Some p\<close> have "q = p" by simp
        have "first_seen env fb [] = None" by simp
        moreover have "seen env fb (Some cur) = Some f" using Some cur by simp
        ultimately show "\<exists>pre t cur' f fin.
            [] @ [Clock (now s), Listed (Some cur)] @ fin_evs = pre @ [Clock t, Listed (Some cur')] @ fin \<and>
            first_seen env fb pre = None \<and> t - start < 1000 * download_timeout \<and>
            seen env fb (Some cur') = Some f \<and> renamed_or_not (download_folder rem) orig f fin q"
          using True fe(2) \<open>q = p\<close> by blast
      qed
      ultimately show ?thesis by blast
    qed
  qed
qed


lemma driver_call_trace: "driver_call rem f s = (r, s') \<Longrightarrow> trace s' = trace s"
  by (auto simp: driver_call_def quiet_def dest: call_trace split: if_splits)

lemma call_quiet_trace: "call quiet f s = (r, s') \<Longrightarrow> trace s' = trace s"
  by (auto simp: quiet_def dest: call_trace)

lemma poll_after_click:
  assumes poll: "poll_download env rem fb orig (now s3) (read_clock s3) = (r, s')"
    and tr: "trace s3 = trace s @ [Listed (Some fb)]"
    and iter: "\<And>xs. set (set_iter env xs) = set xs"
  shows "(\<forall>p. r = Some p \<longrightarrow> (\<exists>fb start pre t cur f fin.
          new_events s s' = Listed (Some fb) # Clock start # pre @ [Clock t, Listed (Some cur)] @ fin \<and>
          (\<forall>l\<in>set (listings pre). \<forall>g. \<not> offers fb l g) \<and>
          t - start < 1000 * download_timeout \<and>
          offers fb cur f \<and> f = hd (complete_files env fb cur) \<and>
          renamed_or_not (download_folder rem) orig f fin p))
   \<and> (r = None \<longrightarrow> (new_events s s' = [Listed None] \<or> (\<exists>fb. new_events s s' = [Listed (Some fb)]) \<or>
         (\<exists>fb start pre t. new_events s s' = Listed (Some fb) # Clock start # pre @ [Clock t] \<and>
            (\<forall>l\<in>set (listings pre). \<forall>g. \<not> offers fb l g) \<and>
            1000 * download_timeout \<le> t - start)))"
proof -
  from poll_download_spec[OF poll] obtain evs where
    evs: "trace s' = trace (read_clock s3) @ evs" "poll_post env rem fb orig (now s3) r evs" by blast
  have ne: "new_events s s' = Listed (Some fb) # Clock (now s3) # evs"
    using evs(1) tr by (simp add: new_events_def)
  show ?thesis
  proof (intro conjI impI allI)
    fix p assume "r = Some p"
    with evs(2) obtain pre t cur f fin where x: "evs = pre @ [Clock t, Listed (Some cur)] @ fin"
           "first_seen env fb pre = None" "t - now s3 < 1000 * download_timeout"
           "seen env fb (Some cur) = Some f" "renamed_or_not (download_folder rem) orig f fin p"
      unfolding poll_post_def by blast
    from seen_SomeD[OF x(4) iter] have m: "offers fb cur f" "f = hd (complete_files env fb cur)"
      by auto
    note q = first_seen_None_listings[OF iter x(2)]
    have "new_events s s' = Listed (Some fb) # Clock (now s3) # pre @ [Clock t, Listed (Some cur)] @ fin"
      using ne x(1) by simp
    with q x(3,5) m show "\<exists>fb start pre t cur f fin.
          new_events s s' = Listed (Some fb) # Clock start # pre @ [Clock t, Listed (Some cur)] @ fin \<and>
          (\<forall>l\<in>set (listings pre). \<forall>g. \<not> offers fb l g) \<and>
          t - start < 1000 * download_timeout \<and>
          offers fb cur f \<and> f = hd (complete_files env fb cur) \<and>
          renamed_or_not (download_folder rem) orig f fin p" by blast
  next
    assume "r = None"
    with evs(2) obtain pre t where x: "first_seen env fb evs = None" "evs = pre @ [Clock t]"
      "1000 * download_timeout \<le> t - now s3" unfolding poll_post_def by blast
    from x(1,2) have "first_seen env fb pre = None"
      by (simp add: first_seen_append split: option.splits)
    note q = first_seen_None_listings[OF iter this]
    have "new_events s s' = Listed (Some fb) # Clock (now s3) # pre @ [Clock t]"
      using ne x(2) by simp
    with q have "\<exists>fb start pre t. new_events s s' = Listed (Some fb) # Clock start # pre @ [Clock t] \<and>
            (\<forall>l\<in>set (listings pre). \<forall>g. \<not> offers fb l g) \<and>
            1000 * download_timeout \<le> t - start"
      using x(3) by blast
    then show "new_events s s' = [Listed None] \<or> (\<exists>fb. new_events s s' = [Listed (Some fb)]) \<or>
         (\<exists>fb start pre t. new_events s s' = Listed (Some fb) # Clock start # pre @ [Clock t] \<and>
            (\<forall>l\<in>set (listings pre). \<forall>g. \<not> offers fb l g) \<and>
            1000 * download_timeout \<le> t - start)" by blast
  qed
qed

text \<open>
  Claim C7, as the code has it. \<open>download_processed_image\<close> first lists the
  download folder (\<open>fb\<close>, the files present before), triggers the download and
  reads the clock (\<open>start\<close>); from then on every round reads the clock and, while
  less than \<open>download_timeout\<close> seconds have passed, lists the folder again.
  It returns a path exactly when some listing within the timeout offers a file, one
  that is not in \<open>fb\<close> and does not end in \<^verbatim>\<open>.crdownload\<close>, \<^verbatim>\<open>.tmp\<close> or
  \<^verbatim>\<open>.part\<close>, no earlier listing having offered one. The file \<open>f\<close> taken is the
  first of the offered ones in the order the set of new names is iterated. The path
  returned is that of \<open>f\<close> renamed to \<^verbatim>\<open>processed_<original stem><ext>\<close>, where
  \<open>ext\<close> is the extension of \<open>f\<close> or, when \<open>f\<close> has none, the extension of the
  original file name; it is the path of \<open>f\<close> as downloaded when the renaming fails
  (and also when the renaming succeeds and the size query after it raises). The call
  returns \<open>None\<close> when the first listing or the click fails, or when the clock has
  passed the timeout with no file offered. The iteration over a set is assumed to
  yield exactly the elements of the set.
\<close>

theorem download_processed_image_result:
  assumes run: "download_processed_image env rem download_button orig s = (r, s')"
      and iter: "\<And>xs. set (set_iter env xs) = set xs"
  shows "(\<forall>p. r = Some p \<longrightarrow> (\<exists>fb start pre t cur f fin.
          new_events s s' = Listed (Some fb) # Clock start # pre @ [Clock t, Listed (Some cur)] @ fin \<and>
          (\<forall>l\<in>set (listings pre). \<forall>g. \<not> offers fb l g) \<and>
          t - start < 1000 * download_timeout \<and>
          offers fb cur f \<and> f = hd (complete_files env fb cur) \<and>
          renamed_or_not (download_folder rem) orig f fin p))
   \<and> (r = None \<longrightarrow> (new_events s s' = [Listed None] \<or> (\<exists>fb. new_events s s' = [Listed (Some fb)]) \<or>
         (\<exists>fb start pre t. new_events s s' = Listed (Some fb) # Clock start # pre @ [Clock t] \<and>
            (\<forall>l\<in>set (listings pre). \<forall>g. \<not> offers fb l g) \<and>
            1000 * download_timeout \<le> t - start)))"
proof -
  obtain l0 s1 where l0: "call (\<lambda>r. [Listed (ok r)]) (listdir env (download_folder rem)) s = (l0, s1)"
    by force
  from call_trace[OF l0] have t1: "trace s1 = trace s @ [Listed (ok l0)]" by simp
  show ?thesis
  proof (cases l0)
    case (Inl e)
    with run l0 have "r = None" "s' = s1" by (simp_all add: download_processed_image_def)
    then show ?thesis using t1 Inl by (simp add: new_events_def)
  next
    case (Inr fb)
    obtain sc s2 where sc: "driver_call rem (execute_script env ''scrollIntoView'') s1 = (sc, s2)"
      by force
    from driver_call_trace[OF sc] t1 Inr have t2: "trace s2 = trace s @ [Listed (Some fb)]" by simp
    show ?thesis
    proof (cases sc)
      case (Inl e)
      with run l0 Inr sc have "r = None" "s' = s2" by (simp_all add: download_processed_image_def)
      then show ?thesis using t2 by (simp add: new_events_def)
    next
      case scr: (Inr u)
      obtain c s3 where c: "call quiet (click env download_button) (sleep env 1 s2) = (c, s3)"
        by force
      from call_quiet_trace[OF c] t2 have t3: "trace s3 = trace s @ [Listed (Some fb)]" by simp
      show ?thesis
      proof (cases c)
        case (Inr u')
        with run l0 \<open>l0 = Inr fb\<close> sc scr c
        have "poll_download env rem fb orig (now s3) (read_clock s3) = (r, s')"
          by (simp add: download_processed_image_def)
        from poll_after_click[OF this t3 iter] show ?thesis .
      next
        case (Inl e)
        obtain js s4 where js: "driver_call rem (execute_script env ''click'') s3 = (js, s4)"
          by force
        from driver_call_trace[OF js] t3 have t4: "trace s4 = trace s @ [Listed (Some fb)]" by simp
        show ?thesis
        proof (cases js)
          case (Inl e')
          with run l0 \<open>l0 = Inr fb\<close> sc scr c \<open>c = Inl e\<close> js have "r = None" "s' = s4"
            by (simp_all add: download_processed_image_def)
          then show ?thesis using t4 by (simp add: new_events_def)
        next
          case (Inr u')
          with run l0 \<open>l0 = Inr fb\<close> sc scr c \<open>c = Inl e\<close> js
          have "poll_download env rem fb orig (now s4) (read_clock s4) = (r, s')"
            by (simp add: download_processed_image_def)
          from poll_after_click[OF this t4 iter] show ?thesis .
        qed
      qed
    qed
  qed
qed

text \<open>A run in which the site delivers two files at once, \<^verbatim>\<open>alpha.jpg\<close> and
  \<^verbatim>\<open>zeta.png\<close>, and the iteration over the set of new names yields \<^verbatim>\<open>zeta.png\<close>
  first.\<close>

theorem download_processed_image_result_witness:
  "download_processed_image two_files_env demo_remover 9 ''doc_page_001.png'' demo_world =
     (Some ''/tmp/work/processed_doc_page_001.png'',
      \<lparr>ext = 1, now = 1000,
       trace =
         [Listed (Some [''doc_page_001.png'']), Clock 1000, Clock 1000,
          Listed (Some [''alpha.jpg'', ''doc_page_001.png'', ''zeta.png'']),
          Renamed ''/tmp/work/zeta.png'' ''/tmp/work/processed_doc_page_001.png'' True,
          Sized ''/tmp/work/processed_doc_page_001.png'' True]\<rparr>)
   \<and> (\<forall>xs. set (set_iter two_files_env xs) = set xs)
   \<and> (\<exists>fb start pre t cur f fin.
          new_events demo_world (snd (download_processed_image two_files_env demo_remover 9
             ''doc_page_001.png'' demo_world))
            = Listed (Some fb) # Clock start # pre @ [Clock t, Listed (Some cur)] @ fin \<and>
          (\<forall>l\<in>set (listings pre). \<forall>g. \<not> offers fb l g) \<and>
          t - start < 1000 * download_timeout \<and>
          offers fb cur f \<and> f = hd (complete_files two_files_env fb cur) \<and>
          renamed_or_not (download_folder demo_remover) ''doc_page_001.png'' f fin
            ''/tmp/work/processed_doc_page_001.png'')"
proof -
  have run: "download_processed_image two_files_env demo_remover 9 ''doc_page_001.png'' demo_world =
     (Some ''/tmp/work/processed_doc_page_001.png'',
      \<lparr>ext = 1, now = 1000,
       trace =
         [Listed (Some [''doc_page_001.png'']), Clock 1000, Clock 1000,
          Listed (Some [''alpha.jpg'', ''doc_page_001.png'', ''zeta.png'']),
          Renamed ''/tmp/work/zeta.png'' ''/tmp/work/processed_doc_page_001.png'' True,
          Sized ''/tmp/work/processed_doc_page_001.png'' True]\<rparr>)"
    by (simp add: download_processed_image_def poll_download.simps finish_download_def call_def
      driver_call_def quiet_def sleep_def read_clock_def two_files_env_def demo_env_def
      demo_remover_def demo_world_def
      download_timeout_def complete_files_def new_files_def complete_file_def
      incomplete_suffixes_def endswith_def
      join_def startswith_def new_name_def downloaded_ext_def path_stem_def path_suffix_def
      path_name_def path_parts_def Let_def)
  have iter: "set (set_iter two_files_env xs) = set xs" for xs
    by (simp add: two_files_env_def demo_env_def)
  from download_processed_image_result[OF run iter] iter show ?thesis
    unfolding run by simp
qed

text \<open>
  Claim C7 as stated fails where the downloaded file has no extension: the site delivers
  a file named \<^verbatim>\<open>result\<close> for the page image \<^verbatim>\<open>doc_page_001.png\<close>. The claim's
  name, original stem followed by the downloaded extension, is
  \<^verbatim>\<open>processed_doc_page_001\<close>; the code falls back to the original extension and
  returns \<^verbatim>\<open>processed_doc_page_001.png\<close>.
\<close>

theorem download_extension_counterexample:
  "fst (download_processed_image noext_env demo_remover 9 ''doc_page_001.png'' demo_world)
     = Some ''/tmp/work/processed_doc_page_001.png''
   \<and> new_events demo_world
        (snd (download_processed_image noext_env demo_remover 9 ''doc_page_001.png'' demo_world))
     = [Listed (Some [''doc_page_001.png'']), Clock 1000, Clock 1000,
        Listed (Some [''doc_page_001.png'', ''result'']),
        Renamed ''/tmp/work/result'' ''/tmp/work/processed_doc_page_001.png'' True,
        Sized ''/tmp/work/processed_doc_page_001.png'' True]
   \<and> path_suffix ''result'' = []
   \<and> fst (download_processed_image noext_env demo_remover 9 ''doc_page_001.png'' demo_world)
     \<noteq> Some (join (download_folder demo_remover)
          (''processed_'' @ path_stem ''doc_page_001.png'' @ path_suffix ''result''))"
  by (simp add: download_processed_image_def poll_download.simps finish_download_def call_def
      driver_call_def quiet_def sleep_def read_clock_def noext_env_def demo_env_def demo_remover_def
      demo_world_def new_events_def
      download_timeout_def complete_files_def new_files_def complete_file_def
      incomplete_suffixes_def endswith_def
      join_def startswith_def new_name_def downloaded_ext_def path_stem_def path_suffix_def
      path_name_def path_parts_def Let_def)

section \<open>Properties of convert_images_to_pdf\<close>

lemma kept_Cons [simp]:
  "kept (x # xs) (b # bs) = (if b then x # kept xs bs else kept xs bs)"
  by (simp add: kept_def)

lemma dropped_Cons [simp]:
  "dropped (x # xs) (b # bs) = (if b then dropped xs bs else x # dropped xs bs)"
  by (simp add: dropped_def)

lemma length_kept: "length (kept xs bs) \<le> length xs"
proof -
  have "length (filter snd (zip xs bs)) \<le> length (zip xs bs)" by (rule length_filter_le)
  then show ?thesis by (simp add: kept_def)
qed

lemma existing_paths_spec:
  "existing_paths env ps s = (vs, s') \<Longrightarrow>
     \<exists>bs. length bs = length ps \<and> vs = kept ps bs \<and>
          trace s' = trace s @ map NotFound (dropped ps bs)"
proof (induction ps arbitrary: s vs s')
  case Nil
  then have "length ([]::bool list) = length ([]::path list) \<and> vs = kept [] [] \<and>
          trace s' = trace s @ map NotFound (dropped [] [])"
    by (simp add: kept_def dropped_def)
  then show ?case by blast
next
  case (Cons p ps)
  obtain found s1 where f: "call (\<lambda>found. if found then [] else [NotFound p])
                               (path_exists env p) s = (found, s1)" by force
  obtain vs2 s2 where r: "existing_paths env ps s1 = (vs2, s2)" by force
  from Cons.IH[OF r] obtain bs where bs: "length bs = length ps" "vs2 = kept ps bs"
    "trace s2 = trace s1 @ map NotFound (dropped ps bs)" by blast
  from call_trace[OF f] have t1: "trace s1 = trace s @ (if found then [] else [NotFound p])"
    by simp
  from Cons.prems f r have res: "vs = (if found then p # vs2 else vs2)" "s' = s2" by auto
  have "length (found # bs) = length (p # ps)" using bs(1) by simp
  moreover have "vs = kept (p # ps) (found # bs)" using res(1) bs(2) by simp
  moreover have "trace s' = trace s @ map NotFound (dropped (p # ps) (found # bs))"
    using res(2) bs(3) t1 by simp
  ultimately show ?case by blast
qed

lemma existing_paths_none:
  "\<forall>p\<in>set ps. \<forall>w. \<not> fst (path_exists env p w) \<Longrightarrow> fst (existing_paths env ps s) = []"
proof (induction ps arbitrary: s)
  case Nil
  then show ?case by simp
next
  case (Cons p ps)
  obtain found s1 where f: "call (\<lambda>found. if found then [] else [NotFound p])
                               (path_exists env p) s = (found, s1)" by force
  then have "found = fst (path_exists env p (ext s))"
    by (auto simp: call_def Let_def split: prod.splits)
  with Cons.prems have "\<not> found" by simp
  moreover from Cons.prems have "fst (existing_paths env ps s1) = []" by (intro Cons.IH) simp
  ultimately show ?case using f by (simp split: prod.splits)
qed

lemma open_images_spec:
  "open_images env ps s = (imgs, s') \<Longrightarrow>
     \<exists>rs. length rs = length ps \<and> trace s' = trace s @ map2 Opened ps rs \<and>
           imgs = List.map_filter id rs"
proof (induction ps arbitrary: s imgs s')
  case Nil
  then show ?case by (simp add: List.map_filter_simps)
next
  case (Cons p ps)
  obtain r s1 where o: "call (\<lambda>r. [Opened p (ok r)]) (image_open_rgb env p) s = (r, s1)" by force
  obtain imgs2 s2 where rec: "open_images env ps s1 = (imgs2, s2)" by force
  from Cons.IH[OF rec] obtain rs where rs: "length rs = length ps"
    "trace s2 = trace s1 @ map2 Opened ps rs" "imgs2 = List.map_filter id rs" by blast
  from call_trace[OF o] have t1: "trace s1 = trace s @ [Opened p (ok r)]" by simp
  from Cons.prems o rec have res: "imgs = (case r of Inl e \<Rightarrow> imgs2 | Inr img \<Rightarrow> img # imgs2)" "s' = s2"
    by auto
  have "length (ok r # rs) = length (p # ps)" using rs(1) by simp
  moreover have "trace s' = trace s @ map2 Opened (p # ps) (ok r # rs)"
    using t1 rs(2) res(2) by simp
  moreover have "imgs = List.map_filter id (ok r # rs)"
    using res(1) rs(3) by (cases r) (simp_all add: List.map_filter_simps)
  ultimately show ?case by blast
qed

lemma ensure_output_dir_trace:
  "ensure_output_dir env d s = (r, s') \<Longrightarrow> trace s' = trace s"
proof (cases "d = []")
  case True
  then show "ensure_output_dir env d s = (r, s') \<Longrightarrow> ?thesis" by (simp add: ensure_output_dir_def)
next
  case False
  assume run: "ensure_output_dir env d s = (r, s')"
  obtain found s1 where f: "call quiet (path_exists env d) s = (found, s1)" by force
  from call_quiet_trace[OF f] have t1: "trace s1 = trace s" .
  show ?thesis
  proof (cases found)
    case True
    with run f False have "s' = s1" by (simp add: ensure_output_dir_def)
    then show ?thesis using t1 by simp
  next
    case nf: False
    with run f False have "call quiet (makedirs env d) s1 = (r, s')"
      by (simp add: ensure_output_dir_def)
    from call_quiet_trace[OF this] t1 show ?thesis by simp
  qed
qed

lemma convert_images_to_pdf_True:
  assumes run: "convert_images_to_pdf env creator image_paths out s = (True, s')"
  shows "\<exists>found rs. length found = length image_paths \<and>
           length rs = length (kept (sort_key basename image_paths) found) \<and>
           new_events s s' =
             map NotFound (dropped (sort_key basename image_paths) found) @
             map2 Opened (kept (sort_key basename image_paths) found) rs @
             [SavePdf out (List.map_filter id rs) True] \<and>
           List.map_filter id rs \<noteq> []"
proof -
  obtain valid s1 where v: "existing_paths env (sort_key basename image_paths) s = (valid, s1)"
    by force
  obtain imgs s2 where im: "open_images env valid s1 = (imgs, s2)" by force
  obtain d s3 where d: "ensure_output_dir env (dirname out) s2 = (d, s3)" by force
  obtain sv s4 where sv: "call (\<lambda>r. [SavePdf out imgs (ok r \<noteq> None)])
                                (save_pdf env imgs out (creator_dpi creator)) s3 = (sv, s4)" by force
  obtain ex s5 where ex: "call quiet (path_exists env out) s4 = (ex, s5)" by force
  obtain gs s6 where gs: "call quiet (getsize env out) s5 = (gs, s6)" by force
  from run v im d sv ex gs have facts: "imgs \<noteq> []" "sv \<noteq> Inl e" "s' = s6" for e
    by (auto simp: convert_images_to_pdf_def split: if_splits sum.splits bool.splits)
  from existing_paths_spec[OF v] obtain found where 1:
    "length found = length (sort_key basename image_paths)"
    "valid = kept (sort_key basename image_paths) found"
    "trace s1 = trace s @ map NotFound (dropped (sort_key basename image_paths) found)" by blast
  from open_images_spec[OF im] obtain rs where rs: "length rs = length valid"
    "trace s2 = trace s1 @ map2 Opened valid rs" "imgs = List.map_filter id rs" by blast
  from ensure_output_dir_trace[OF d] have 3: "trace s3 = trace s2" .
  from facts(2) obtain u where "sv = Inr u" by (cases sv) auto
  with call_trace[OF sv] have 4: "trace s4 = trace s3 @ [SavePdf out imgs True]" by simp
  from call_quiet_trace[OF ex] call_quiet_trace[OF gs] have 5: "trace s6 = trace s4" by simp
  have "new_events s s' =
             map NotFound (dropped (sort_key basename image_paths) found) @
             map2 Opened (kept (sort_key basename image_paths) found) rs @
             [SavePdf out (List.map_filter id rs) True]"
    using 1(2,3) rs(2,3) 3 4 5 facts(3) by (simp add: new_events_def)
  moreover have "length found = length image_paths" using 1(1) by simp
  moreover have "length rs = length (kept (sort_key basename image_paths) found)"
    using rs(1) 1(2) by simp
  ultimately show ?thesis using rs(3) facts(1) by blast
qed

lemma convert_images_to_pdf_none_exists:
  assumes "\<forall>p\<in>set image_paths. \<forall>w. \<not> fst (path_exists env p w)"
  shows "fst (convert_images_to_pdf env creator image_paths out s) = False"
proof -
  from assms have "\<forall>p\<in>set (sort_key basename image_paths). \<forall>w. \<not> fst (path_exists env p w)"
    by simp
  from existing_paths_none[OF this]
  have e: "fst (existing_paths env (sort_key basename image_paths) s) = []" .
  obtain valid s1 where v: "existing_paths env (sort_key basename image_paths) s = (valid, s1)"
    by force
  with e have "valid = []" by simp
  with v show ?thesis
    by (simp add: convert_images_to_pdf_def)
qed

lemma convert_images_to_pdf_missing_run:
  "convert_images_to_pdf missing_env (new_images_to_pdf 300)
     [''/tmp/work/processed_doc_page_002.png'', ''/tmp/work/processed_doc_page_001.png'']
     ''/out/NoWatermark_doc.pdf'' demo_world
   = (True, demo_world\<lparr>trace :=
        [NotFound ''/tmp/work/processed_doc_page_002.png'',
         Opened ''/tmp/work/processed_doc_page_001.png'' (Some 13),
         SavePdf ''/out/NoWatermark_doc.pdf'' [13] True]\<rparr>)"
  by (simp add: convert_images_to_pdf_def ensure_output_dir_def call_def quiet_def
      missing_env_def demo_env_def demo_world_def new_images_to_pdf_def basename_def dirname_def)

text \<open>
  Claim C9. \<open>convert_images_to_pdf\<close> returns a truth value on every path through it
  (every exception is caught inside). It returns \<open>False\<close> for the empty list, and
  \<open>False\<close> when none of the listed paths exists. When it returns \<open>True\<close>, it has
  checked every listed path once, in the order of the basenames (the outcomes are
  \<open>found\<close>): the paths not found are reported and left out, every path found is
  opened, in that order, and the PDF saved holds the images that opened (the outcomes
  of the openings are \<open>rs\<close>), one page each, in that order; a path whose image does
  not open is reported and left out. So a call can return \<open>True\<close> with fewer pages
  than paths, as it does for two paths of which one is missing.
\<close>

theorem convert_images_to_pdf_skips:
  "fst (convert_images_to_pdf env creator [] out s) = False \<and>
   ((\<forall>p\<in>set image_paths. \<forall>w. \<not> fst (path_exists env p w)) \<longrightarrow>
      fst (convert_images_to_pdf env creator image_paths out s) = False) \<and>
   (\<forall>s'. convert_images_to_pdf env creator image_paths out s = (True, s') \<longrightarrow>
      (\<exists>found rs. length found = length image_paths \<and>
         length rs = length (kept (sort_key basename image_paths) found) \<and>
         new_events s s' =
           map NotFound (dropped (sort_key basename image_paths) found) @
           map2 Opened (kept (sort_key basename image_paths) found) rs @
           [SavePdf out (List.map_filter id rs) True] \<and>
         List.map_filter id rs \<noteq> [] \<and>
         length (List.map_filter id rs) \<le> length image_paths)) \<and>
   convert_images_to_pdf missing_env (new_images_to_pdf 300)
     [''/tmp/work/processed_doc_page_002.png'', ''/tmp/work/processed_doc_page_001.png'']
     ''/out/NoWatermark_doc.pdf'' demo_world
   = (True, demo_world\<lparr>trace :=
        [NotFound ''/tmp/work/processed_doc_page_002.png'',
         Opened ''/tmp/work/processed_doc_page_001.png'' (Some 13),
         SavePdf ''/out/NoWatermark_doc.pdf'' [13] True]\<rparr>)"
proof (intro conjI impI allI)
  show "fst (convert_images_to_pdf env creator [] out s) = False"
    by (simp add: convert_images_to_pdf_def)
next
  assume "\<forall>p\<in>set image_paths. \<forall>w. \<not> fst (path_exists env p w)"
  then show "fst (convert_images_to_pdf env creator image_paths out s) = False"
    by (rule convert_images_to_pdf_none_exists)
next
  fix s' assume "convert_images_to_pdf env creator image_paths out s = (True, s')"
  from convert_images_to_pdf_True[OF this] obtain found rs where x:
    "length found = length image_paths"
    "length rs = length (kept (sort_key basename image_paths) found)"
    "new_events s s' =
           map NotFound (dropped (sort_key basename image_paths) found) @
           map2 Opened (kept (sort_key basename image_paths) found) rs @
           [SavePdf out (List.map_filter id rs) True]"
    "List.map_filter id rs \<noteq> []" by blast
  have "length (List.map_filter id rs) \<le> length rs"
    by (simp add: List.map_filter_def)
  also have "\<dots> \<le> length (sort_key basename image_paths)"
    using length_kept[of "sort_key basename image_paths" found] x(2) by simp
  finally have "length (List.map_filter id rs) \<le> length image_paths" by simp
  with x show "\<exists>found rs. length found = length image_paths \<and>
         length rs = length (kept (sort_key basename image_paths) found) \<and>
         new_events s s' =
           map NotFound (dropped (sort_key basename image_paths) found) @
           map2 Opened (kept (sort_key basename image_paths) found) rs @
           [SavePdf out (List.map_filter id rs) True] \<and>
         List.map_filter id rs \<noteq> [] \<and>
         length (List.map_filter id rs) \<le> length image_paths" by blast
next
  show "convert_images_to_pdf missing_env (new_images_to_pdf 300)
     [''/tmp/work/processed_doc_page_002.png'', ''/tmp/work/processed_doc_page_001.png'']
     ''/out/NoWatermark_doc.pdf'' demo_world
   = (True, demo_world\<lparr>trace :=
        [NotFound ''/tmp/work/processed_doc_page_002.png'',
         Opened ''/tmp/work/processed_doc_page_001.png'' (Some 13),
         SavePdf ''/out/NoWatermark_doc.pdf'' [13] True]\<rparr>)"
    by (rule convert_images_to_pdf_missing_run)
qed

theorem convert_images_to_pdf_skips_witness:
  "fst (convert_images_to_pdf missing_env (new_images_to_pdf 300)
          [''/tmp/work/processed_doc_page_002.png''] ''/out/NoWatermark_doc.pdf'' demo_world) = False
   \<and> (\<exists>found rs.
         length found = length
           [''/tmp/work/processed_doc_page_002.png'', ''/tmp/work/processed_doc_page_001.png''] \<and>
         length rs = length (kept (sort_key basename
           [''/tmp/work/processed_doc_page_002.png'', ''/tmp/work/processed_doc_page_001.png''])
           found) \<and>
         new_events demo_world (demo_world\<lparr>trace :=
            [NotFound ''/tmp/work/processed_doc_page_002.png'',
             Opened ''/tmp/work/processed_doc_page_001.png'' (Some 13),
             SavePdf ''/out/NoWatermark_doc.pdf'' [13] True]\<rparr>)
           = map NotFound (dropped (sort_key basename
               [''/tmp/work/processed_doc_page_002.png'', ''/tmp/work/processed_doc_page_001.png''])
               found) @
             map2 Opened (kept (sort_key basename
               [''/tmp/work/processed_doc_page_002.png'', ''/tmp/work/processed_doc_page_001.png''])
               found) rs @
             [SavePdf ''/out/NoWatermark_doc.pdf'' (List.map_filter id rs) True] \<and>
         List.map_filter id rs \<noteq> [] \<and>
         length (List.map_filter id rs) \<le> length
           [''/tmp/work/processed_doc_page_002.png'', ''/tmp/work/processed_doc_page_001.png''])"
proof -
  have h1: "\<forall>p\<in>set [''/tmp/work/processed_doc_page_002.png'']. \<forall>w. \<not> fst (path_exists missing_env p w)"
    by (simp add: missing_env_def)
  note t1 = convert_images_to_pdf_skips[of missing_env "new_images_to_pdf 300"
      "''/out/NoWatermark_doc.pdf''" demo_world "[''/tmp/work/processed_doc_page_002.png'']"]
  note t2 = convert_images_to_pdf_skips[of missing_env "new_images_to_pdf 300"
      "''/out/NoWatermark_doc.pdf''" demo_world
      "[''/tmp/work/processed_doc_page_002.png'', ''/tmp/work/processed_doc_page_001.png'']"]
  from t1 h1 have a: "fst (convert_images_to_pdf missing_env (new_images_to_pdf 300)
          [''/tmp/work/processed_doc_page_002.png''] ''/out/NoWatermark_doc.pdf'' demo_world) = False"
    by blast
  from t2 convert_images_to_pdf_missing_run have b: "\<exists>found rs.
         length found = length
           [''/tmp/work/processed_doc_page_002.png'', ''/tmp/work/processed_doc_page_001.png''] \<and>
         length rs = length (kept (sort_key basename
           [''/tmp/work/processed_doc_page_002.png'', ''/tmp/work/processed_doc_page_001.png''])
           found) \<and>
         new_events demo_world (demo_world\<lparr>trace :=
            [NotFound ''/tmp/work/processed_doc_page_002.png'',
             Opened ''/tmp/work/processed_doc_page_001.png'' (Some 13),
             SavePdf ''/out/NoWatermark_doc.pdf'' [13] True]\<rparr>)
           = map NotFound (dropped (sort_key basename
               [''/tmp/work/processed_doc_page_002.png'', ''/tmp/work/processed_doc_page_001.png''])
               found) @
             map2 Opened (kept (sort_key basename
               [''/tmp/work/processed_doc_page_002.png'', ''/tmp/work/processed_doc_page_001.png''])
               found) rs @
             [SavePdf ''/out/NoWatermark_doc.pdf'' (List.map_filter id rs) True] \<and>
         List.map_filter id rs \<noteq> [] \<and>
         length (List.map_filter id rs) \<le> length
           [''/tmp/work/processed_doc_page_002.png'', ''/tmp/work/processed_doc_page_001.png'']"
    by blast
  from a b show ?thesis by (rule conjI)
qed

section \<open>Properties of convert_pdf_to_images\<close>

lemma rasterizations_append: "rasterizations (xs @ ys) = rasterizations xs @ rasterizations ys"
  by (induction xs rule: rasterizations.induct) auto

lemma new_events_append: "trace s' = trace s @ evs \<Longrightarrow> new_events s s' = evs"
  by (simp add: new_events_def)

lemma saved_pages_Nil [simp]: "saved_pages folder name fmt i [] = []"
  by (simp add: saved_pages_def)

lemma saved_pages_Cons:
  "saved_pages folder name fmt i (img # images) =
     ImageSaved img (page_path folder name fmt i) True # saved_pages folder name fmt (Suc i) images"
proof -
  have "[i..<i + length (img # images)] = i # [Suc i..<Suc i + length images]"
    by (subst upt_rec) simp
  then show ?thesis by (simp add: saved_pages_def)
qed

lemma rasterizations_saved_pages [simp]:
  "rasterizations (saved_pages folder name fmt i images) = []"
  by (induction images arbitrary: i) (simp_all add: saved_pages_Cons)

lemma page_paths_Cons:
  "p # map f [Suc i..<Suc i + n] = map f [i..<i + Suc n] \<longleftrightarrow> p = f i"
proof -
  have "[i..<i + Suc n] = i # [Suc i..<Suc i + n]" by (subst upt_rec) simp
  then show ?thesis by simp
qed

lemma save_pages_full:
  "save_pages env conv name folder i images acc s = (r, s') \<Longrightarrow>
     (r = Inr (acc @ map (page_path folder name (lower (image_format conv))) [i..<i + length images]) \<and>
        trace s' = trace s @ saved_pages folder name (lower (image_format conv)) i images)
   \<or> (\<exists>e k. r = Inl e \<and> k < length images \<and>
        trace s' = trace s @ saved_pages folder name (lower (image_format conv)) i (take k images) @
           [ImageSaved (images ! k) (page_path folder name (lower (image_format conv)) (i + k)) False])"
proof (induction images arbitrary: i acc s)
  case Nil
  then show ?case by auto
next
  case (Cons img images)
  let ?ext = "lower (image_format conv)"
  let ?p = "page_path folder name ?ext i"
  have p: "join folder (image_filename name i ?ext) = ?p" by (simp add: page_path_def)
  obtain sv s1 where sv: "call (\<lambda>r. [ImageSaved img ?p (ok r \<noteq> None)])
                            (image_save env img ?p (image_format conv)) s = (sv, s1)" by force
  from call_trace[OF sv] have t1: "trace s1 = trace s @ [ImageSaved img ?p (ok sv \<noteq> None)]" by simp
  show ?case
  proof (cases sv)
    case (Inl e)
    with Cons.prems sv have "r = Inl e" "s' = s1" by (auto simp: p)
    moreover have "trace s1 = trace s @ saved_pages folder name ?ext i (take 0 (img # images)) @
           [ImageSaved ((img # images) ! 0) (page_path folder name ?ext (i + 0)) False]"
      using t1 Inl by simp
    ultimately show ?thesis by blast
  next
    case (Inr u)
    with Cons.prems sv have rec: "save_pages env conv name folder (Suc i) images (acc @ [?p]) s1 = (r, s')"
      by (simp add: p)
    have t1': "trace s1 = trace s @ [ImageSaved img ?p True]" using t1 Inr by simp
    from Cons.IH[OF rec] show ?thesis
    proof (elim disjE conjE exE)
      assume a: "r = Inr ((acc @ [?p]) @ map (page_path folder name ?ext) [Suc i..<Suc i + length images])"
        and b: "trace s' = trace s1 @ saved_pages folder name ?ext (Suc i) images"
      have "[i..<i + length (img # images)] = i # [Suc i..<Suc i + length images]"
        by (subst upt_rec) simp
      then have "r = Inr (acc @ map (page_path folder name ?ext) [i..<i + length (img # images)])"
        using a by simp
      moreover have "trace s' = trace s @ saved_pages folder name ?ext i (img # images)"
        using b t1' by (simp add: saved_pages_Cons)
      ultimately show ?thesis by blast
    next
      fix e k assume a: "r = Inl e" "k < length images"
        and b: "trace s' = trace s1 @ saved_pages folder name ?ext (Suc i) (take k images) @
           [ImageSaved (images ! k) (page_path folder name ?ext (Suc i + k)) False]"
      have "trace s' = trace s @ saved_pages folder name ?ext i (take (Suc k) (img # images)) @
           [ImageSaved ((img # images) ! Suc k) (page_path folder name ?ext (i + Suc k)) False]"
        using b t1' by (simp add: saved_pages_Cons)
      moreover have "Suc k < length (img # images)" using a(2) by simp
      ultimately show ?thesis using a(1) by blast
    qed
  qed
qed

lemma choose_output_folder_spec:
  "choose_output_folder env conv out_dir s = (fo, conv1, s1) \<Longrightarrow>
     conv_dpi conv1 = conv_dpi conv \<and> image_format conv1 = image_format conv \<and> trace s1 = trace s"
  by (auto simp: choose_output_folder_def conv_create_temp_folder_def
      dest: call_quiet_trace split: if_splits prod.splits sum.splits)


lemma convert_with_pdf2image_full:
  assumes "convert_with_pdf2image env conv pdf_path folder s = (image_paths, s')"
  shows "(new_events s s' = [Rasterize pdf_path (conv_dpi conv) (lower (image_format conv)) None] \<and>
          image_paths = [])
     \<or> (\<exists>images.
          new_events s s' = Rasterize pdf_path (conv_dpi conv) (lower (image_format conv)) (Some images) #
            saved_pages folder (path_stem pdf_path) (lower (image_format conv)) 1 images \<and>
          image_paths = map (page_path folder (path_stem pdf_path) (lower (image_format conv)))
                          [1..<Suc (length images)])
     \<or> (\<exists>images k. k < length images \<and>
          new_events s s' = Rasterize pdf_path (conv_dpi conv) (lower (image_format conv)) (Some images) #
            saved_pages folder (path_stem pdf_path) (lower (image_format conv)) 1 (take k images) @
            [ImageSaved (images ! k)
               (page_path folder (path_stem pdf_path) (lower (image_format conv)) (Suc k)) False] \<and>
          image_paths = [])"
proof -
  let ?ext = "lower (image_format conv)"
  obtain c s1 where c: "call (\<lambda>r. [Rasterize pdf_path (conv_dpi conv) ?ext (ok r)])
             (convert_from_path env pdf_path (conv_dpi conv) ?ext) s = (c, s1)"
    by force
  from call_trace[OF c] have t1: "trace s1 = trace s @ [Rasterize pdf_path (conv_dpi conv) ?ext (ok c)]"
    by simp
  show ?thesis
  proof (cases c)
    case (Inl e)
    with assms c have "image_paths = []" "s' = s1" by (auto simp: convert_with_pdf2image_def)
    then show ?thesis using t1 Inl by (simp add: new_events_def)
  next
    case (Inr images)
    obtain r s2 where sp: "save_pages env conv (path_stem pdf_path) folder 1 images [] s1 = (r, s2)"
      by force
    from assms c Inr sp have res: "s' = s2" "image_paths = (case r of Inl e \<Rightarrow> [] | Inr ps \<Rightarrow> ps)"
      by (auto simp: convert_with_pdf2image_def split: sum.splits)
    from save_pages_full[OF sp] show ?thesis
    proof (elim disjE conjE exE)
      assume a: "r = Inr ([] @ map (page_path folder (path_stem pdf_path) ?ext) [1..<1 + length images])"
        and b: "trace s2 = trace s1 @ saved_pages folder (path_stem pdf_path) ?ext 1 images"
      have "new_events s s' = Rasterize pdf_path (conv_dpi conv) ?ext (Some images) #
            saved_pages folder (path_stem pdf_path) ?ext 1 images"
        using b t1 Inr res(1) by (simp add: new_events_def)
      moreover have "image_paths = map (page_path folder (path_stem pdf_path) ?ext) [1..<Suc (length images)]"
        using a res(2) by simp
      ultimately show ?thesis by blast
    next
      fix e k assume a: "r = Inl e" "k < length images"
        and b: "trace s2 = trace s1 @ saved_pages folder (path_stem pdf_path) ?ext 1 (take k images) @
           [ImageSaved (images ! k) (page_path folder (path_stem pdf_path) ?ext (1 + k)) False]"
      have "new_events s s' = Rasterize pdf_path (conv_dpi conv) ?ext (Some images) #
            saved_pages folder (path_stem pdf_path) ?ext 1 (take k images) @
            [ImageSaved (images ! k) (page_path folder (path_stem pdf_path) ?ext (Suc k)) False]"
        using b t1 Inr res(1) by (simp add: new_events_def)
      moreover have "image_paths = []" using a(1) res(2) by simp
      ultimately show ?thesis using a(2) by blast
    qed
  qed
qed

lemma mock_pages_full:
  "mock_pages env pdf folder pc [j..<j + m] acc s = (r, s') \<Longrightarrow>
    (\<exists>imgs. length imgs = m \<and>
        r = Inr (acc @ map (page_path folder (path_stem pdf) ''png'') [Suc j..<Suc j + m]) \<and>
        trace s' = trace s @ saved_pages folder (path_stem pdf) ''png'' (Suc j) imgs)
  \<or> (\<exists>e imgs. r = Inl e \<and> length imgs < m \<and>
        (trace s' = trace s @ saved_pages folder (path_stem pdf) ''png'' (Suc j) imgs
       \<or> (\<exists>img. trace s' = trace s @ saved_pages folder (path_stem pdf) ''png'' (Suc j) imgs @
              [ImageSaved img (page_path folder (path_stem pdf) ''png'' (Suc j + length imgs)) False])))"
proof (induction m arbitrary: j acc s)
  case 0
  then have "r = Inr acc" "s' = s" by simp_all
  then have "length ([]::image list) = 0 \<and>
        r = Inr (acc @ map (page_path folder (path_stem pdf) ''png'') [Suc j..<Suc j + 0]) \<and>
        trace s' = trace s @ saved_pages folder (path_stem pdf) ''png'' (Suc j) []" by simp
  then show ?case by blast
next
  case (Suc m)
  let ?name = "path_stem pdf"
  let ?p = "page_path folder ?name ''png'' (Suc j)"
  have p: "join folder (image_filename ?name (Suc j) ''png'') = ?p" by (simp add: page_path_def)
  have up: "[j..<j + Suc m] = j # [Suc j..<Suc j + m]" by (subst upt_rec) simp
  have up2: "[Suc j..<Suc j + Suc m] = Suc j # [Suc (Suc j)..<Suc (Suc j) + m]"
    by (subst upt_rec) simp
  note prems = Suc.prems[unfolded up]
  obtain d s1 where d: "call quiet (draw_mock_page env pdf (j + 1) pc) s = (d, s1)" by force
  from call_quiet_trace[OF d] have t1: "trace s1 = trace s" .
  show ?case
  proof (cases d)
    case (Inl e)
    with prems d have "r = Inl e" "s' = s1" by (auto simp del: upt_Suc)
    then have "r = Inl e \<and> length ([]::image list) < Suc m \<and>
        trace s' = trace s @ saved_pages folder ?name ''png'' (Suc j) []" using t1 by simp
    then show ?thesis by blast
  next
    case (Inr img)
    obtain sv s2 where sv: "call (\<lambda>r. [ImageSaved img ?p (ok r \<noteq> None)])
                              (image_save env img ?p ''PNG'') s1 = (sv, s2)" by force
    from call_trace[OF sv] have t2: "trace s2 = trace s @ [ImageSaved img ?p (ok sv \<noteq> None)]"
      using t1 by simp
    show ?thesis
    proof (cases sv)
      case (Inl e)
      with prems d \<open>d = Inr img\<close> sv have "r = Inl e" "s' = s2"
        by (auto simp del: upt_Suc simp add: p)
      then have "r = Inl e \<and> length ([]::image list) < Suc m \<and>
        trace s' = trace s @ saved_pages folder ?name ''png'' (Suc j) [] @
              [ImageSaved img (page_path folder ?name ''png'' (Suc j + length ([]::image list))) False]"
        using t2 Inl by simp
      then show ?thesis by blast
    next
      case (Inr u)
      with prems d \<open>d = Inr img\<close> sv
      have rec: "mock_pages env pdf folder pc [Suc j..<Suc j + m] (acc @ [?p]) s2 = (r, s')"
        by (simp del: upt_Suc add: p)
      have t2': "trace s2 = trace s @ [ImageSaved img ?p True]" using t2 Inr by simp
      from Suc.IH[OF rec] show ?thesis
      proof (elim disjE conjE exE)
        fix imgs assume a: "length imgs = m"
          "r = Inr ((acc @ [?p]) @ map (page_path folder ?name ''png'') [Suc (Suc j)..<Suc (Suc j) + m])"
          "trace s' = trace s2 @ saved_pages folder ?name ''png'' (Suc (Suc j)) imgs"
        have "length (img # imgs) = Suc m" using a(1) by simp
        moreover have "r = Inr (acc @ map (page_path folder ?name ''png'') [Suc j..<Suc j + Suc m])"
          using a(2) unfolding up2 by simp
        moreover have "trace s' = trace s @ saved_pages folder ?name ''png'' (Suc j) (img # imgs)"
          using a(3) t2' by (simp add: saved_pages_Cons)
        ultimately show ?thesis by blast
      next
        fix e imgs assume a: "r = Inl e" "length imgs < m"
          "trace s' = trace s2 @ saved_pages folder ?name ''png'' (Suc (Suc j)) imgs"
        have "length (img # imgs) < Suc m" using a(2) by simp
        moreover have "trace s' = trace s @ saved_pages folder ?name ''png'' (Suc j) (img # imgs)"
          using a(3) t2' by (simp add: saved_pages_Cons)
        ultimately show ?thesis using a(1) by blast
      next
        fix e imgs img' assume a: "r = Inl e" "length imgs < m"
          "trace s' = trace s2 @ saved_pages folder ?name ''png'' (Suc (Suc j)) imgs @
              [ImageSaved img' (page_path folder ?name ''png'' (Suc (Suc j) + length imgs)) False]"
        have "length (img # imgs) < Suc m" using a(2) by simp
        moreover have "trace s' = trace s @ saved_pages folder ?name ''png'' (Suc j) (img # imgs) @
              [ImageSaved img' (page_path folder ?name ''png'' (Suc j + length (img # imgs))) False]"
          using a(3) t2' by (simp add: saved_pages_Cons)
        ultimately show ?thesis using a(1) by blast
      qed
    qed
  qed
qed

lemma mock_page_count_spec:
  "mock_page_count env pdf s = (pc, s1) \<Longrightarrow> 1 \<le> pc \<and> trace s1 = trace s"
  by (auto simp: mock_page_count_def dest: call_quiet_trace split: prod.splits sum.splits if_splits)

lemma convert_mock_full:
  assumes run: "convert_mock env conv pdf folder s = (image_paths, s')"
    and pil: "PIL_AVAILABLE env"
  shows "(\<exists>imgs. length imgs = min (fst (mock_page_count env pdf s)) 20 \<and>
          new_events s s' = saved_pages folder (path_stem pdf) ''png'' 1 imgs \<and>
          image_paths = map (page_path folder (path_stem pdf) ''png'') [1..<Suc (length imgs)])
     \<or> (\<exists>imgs. length imgs < min (fst (mock_page_count env pdf s)) 20 \<and> image_paths = [] \<and>
          (new_events s s' = saved_pages folder (path_stem pdf) ''png'' 1 imgs
         \<or> (\<exists>img. new_events s s' = saved_pages folder (path_stem pdf) ''png'' 1 imgs @
              [ImageSaved img (page_path folder (path_stem pdf) ''png'' (Suc (length imgs))) False])))"
proof -
  obtain n s1 where n: "mock_page_count env pdf s = (n, s1)" by force
  from mock_page_count_spec[OF n] have t1: "trace s1 = trace s" by simp
  let ?m = "min n 20"
  obtain r s2 where m: "mock_pages env pdf folder n [0..<0 + ?m] [] s1 = (r, s2)" by force
  from run pil n m have res: "s' = s2" "image_paths = (case r of Inl e \<Rightarrow> [] | Inr ps \<Rightarrow> ps)"
    by (auto simp: convert_mock_def split: sum.splits)
  have f: "fst (mock_page_count env pdf s) = n" using n by simp
  from mock_pages_full[OF m] show ?thesis
  proof (elim disjE conjE exE)
    fix imgs assume a: "length imgs = ?m"
      "r = Inr ([] @ map (page_path folder (path_stem pdf) ''png'') [Suc 0..<Suc 0 + ?m])"
      "trace s2 = trace s1 @ saved_pages folder (path_stem pdf) ''png'' (Suc 0) imgs"
    have "new_events s s' = saved_pages folder (path_stem pdf) ''png'' 1 imgs"
      using a(3) t1 res(1) by (simp add: new_events_def)
    moreover have "image_paths = map (page_path folder (path_stem pdf) ''png'') [1..<Suc (length imgs)]"
      using a(1,2) res(2) by simp
    ultimately show ?thesis using a(1) unfolding f by blast
  next
    fix e imgs assume a: "r = Inl e" "length imgs < ?m"
      "trace s2 = trace s1 @ saved_pages folder (path_stem pdf) ''png'' (Suc 0) imgs"
    have "new_events s s' = saved_pages folder (path_stem pdf) ''png'' 1 imgs"
      using a(3) t1 res(1) by (simp add: new_events_def)
    moreover have "image_paths = []" using a(1) res(2) by simp
    ultimately show ?thesis using a(2) unfolding f by blast
  next
    fix e imgs img assume a: "r = Inl e" "length imgs < ?m"
      "trace s2 = trace s1 @ saved_pages folder (path_stem pdf) ''png'' (Suc 0) imgs @
         [ImageSaved img (page_path folder (path_stem pdf) ''png'' (Suc 0 + length imgs)) False]"
    have "new_events s s' = saved_pages folder (path_stem pdf) ''png'' 1 imgs @
         [ImageSaved img (page_path folder (path_stem pdf) ''png'' (Suc (length imgs))) False]"
      using a(3) t1 res(1) by (simp add: new_events_def)
    moreover have "image_paths = []" using a(1) res(2) by simp
    ultimately show ?thesis using a(2) unfolding f by blast
  qed
qed

text \<open>
  Claim C4, as the code has it. The DPI of a converter is set by its constructor
  (300 by default) and \<open>convert_pdf_to_images\<close> returns the converter with the same
  DPI; every rasterization the call makes is of the given PDF at that DPI. The call
  returns the empty list, having done nothing, when the PDF is not found or when no
  folder is given and the converter's own temporary folder cannot be made. Otherwise,
  with pdf2image, the log of the call is one of three. The rasterization raised: the
  empty list is returned. The rasterization returned the page images \<open>images\<close> and
  every one was saved: the list returned holds one path per page image, page \<open>i\<close>
  under the name \<^verbatim>\<open><stem>_page_<i, three digits>.<format>\<close>, in page order. Or the
  save of page \<open>k + 1\<close> raised after \<open>k\<close> pages were saved: the empty list is
  returned. Without pdf2image nothing is rasterized: the pages are drawn, as many as
  page markers are counted in the file, at least one and at most twenty, and the list
  returned holds the paths of all of them, or is empty when Pillow is missing or the
  sequence of saved pages stops short because a drawing or a save raised.
\<close>

theorem convert_pdf_to_images_fixed_dpi:
  assumes run: "convert_pdf_to_images env conv pdf_path out_dir s = (image_paths, conv', s')"
      and ex: "call quiet (path_exists env pdf_path) s = (found, s1)"
      and ch: "choose_output_folder env conv out_dir s1 = (fo, conv1, s2)"
  shows "conv_dpi (new_pdf_to_images default_dpi fmt) = 300 \<and>
    conv_dpi conv' = conv_dpi conv \<and>
    (\<forall>r\<in>set (rasterizations (new_events s s')).
        r = (pdf_path, conv_dpi conv, lower (image_format conv))) \<and>
    (truthy out_dir \<longrightarrow> fo = out_dir) \<and>
    (\<not> found \<or> fo = None \<longrightarrow> image_paths = [] \<and> new_events s s' = []) \<and>
    (\<forall>folder. found \<and> fo = Some folder \<and> PDF2IMAGE_AVAILABLE env \<longrightarrow>
       (new_events s s' = [Rasterize pdf_path (conv_dpi conv) (lower (image_format conv)) None] \<and>
          image_paths = [])
       \<or> (\<exists>images.
            new_events s s' =
              Rasterize pdf_path (conv_dpi conv) (lower (image_format conv)) (Some images) #
              saved_pages folder (path_stem pdf_path) (lower (image_format conv)) 1 images \<and>
            image_paths = map (page_path folder (path_stem pdf_path) (lower (image_format conv)))
                            [1..<Suc (length images)])
       \<or> (\<exists>images k. k < length images \<and>
            new_events s s' =
              Rasterize pdf_path (conv_dpi conv) (lower (image_format conv)) (Some images) #
              saved_pages folder (path_stem pdf_path) (lower (image_format conv)) 1 (take k images) @
              [ImageSaved (images ! k)
                 (page_path folder (path_stem pdf_path) (lower (image_format conv)) (Suc k)) False] \<and>
            image_paths = [])) \<and>
    (\<forall>folder. found \<and> fo = Some folder \<and> \<not> PDF2IMAGE_AVAILABLE env \<longrightarrow>
       rasterizations (new_events s s') = [] \<and> length image_paths \<le> 20 \<and>
       (\<not> PIL_AVAILABLE env \<longrightarrow> image_paths = [] \<and> new_events s s' = []) \<and>
       (PIL_AVAILABLE env \<longrightarrow>
           (\<exists>imgs. length imgs = min (fst (mock_page_count env pdf_path s2)) 20 \<and>
              new_events s s' = saved_pages folder (path_stem pdf_path) ''png'' 1 imgs \<and>
              image_paths = map (page_path folder (path_stem pdf_path) ''png'') [1..<Suc (length imgs)])
         \<or> (\<exists>imgs. length imgs < min (fst (mock_page_count env pdf_path s2)) 20 \<and>
              image_paths = [] \<and>
              (new_events s s' = saved_pages folder (path_stem pdf_path) ''png'' 1 imgs
             \<or> (\<exists>img. new_events s s' = saved_pages folder (path_stem pdf_path) ''png'' 1 imgs @
                  [ImageSaved img (page_path folder (path_stem pdf_path) ''png'' (Suc (length imgs)))
                     False])))))"
    (is "?A \<and> ?B \<and> ?C \<and> ?D \<and> ?E \<and> ?F \<and> ?G")
proof -
  have a: ?A
    by (simp add: new_pdf_to_images_def default_dpi_def)
  from call_quiet_trace[OF ex] have t1: "trace s1 = trace s" .
  from choose_output_folder_spec[OF ch]
  have c1: "conv_dpi conv1 = conv_dpi conv" "image_format conv1 = image_format conv"
    "trace s2 = trace s" using t1 by auto
  have d: ?D
    using ch by (auto simp: choose_output_folder_def)
  show ?thesis
  proof (cases "found \<and> fo \<noteq> None")
    case False
    have "image_paths = [] \<and> new_events s s' = [] \<and> conv_dpi conv' = conv_dpi conv"
    proof (cases found)
      case nf: False
      with run ex have "image_paths = []" "conv' = conv" "s' = s1"
        by (simp_all add: convert_pdf_to_images_def)
      then show ?thesis using t1 by (simp add: new_events_def)
    next
      case True
      with False have "fo = None" by simp
      with run ex True ch have "image_paths = []" "conv' = conv1" "s' = s2"
        by (simp_all add: convert_pdf_to_images_def)
      then show ?thesis using c1 by (simp add: new_events_def)
    qed
    then have res: "image_paths = []" "new_events s s' = []" "conv_dpi conv' = conv_dpi conv"
      by simp_all
    have b: ?B by (rule res(3))
    have c: ?C using res(2) by simp
    have e: ?E using res(1,2) by simp
    have f: ?F using False by blast
    have g: ?G using False by blast
    from a b c d e f g show ?thesis by (intro conjI)
  next
    case True
    then obtain folder0 where fo: "found" "fo = Some folder0" by auto
    have e: ?E using fo by simp
    show ?thesis
    proof (cases "PDF2IMAGE_AVAILABLE env")
      case avail: True
      obtain ps s3 where cv: "convert_with_pdf2image env conv1 pdf_path folder0 s2 = (ps, s3)"
        by force
      with run ex fo ch avail have res: "image_paths = ps" "conv' = conv1" "s' = s3"
        by (simp_all add: convert_pdf_to_images_def)
      have ne: "new_events s s' = new_events s2 s3" using c1(3) res(3) by (simp add: new_events_def)
      note full = convert_with_pdf2image_full[OF cv, unfolded c1(1,2), folded ne res(1)]
      have b: ?B using res(2) c1(1) by simp
      have c: ?C
        using full by (auto simp: rasterizations_append)
      have f: ?F
      proof (intro allI impI)
        fix folder assume "found \<and> fo = Some folder \<and> PDF2IMAGE_AVAILABLE env"
        then have "folder = folder0" using fo(2) by simp
        then show "(new_events s s' = [Rasterize pdf_path (conv_dpi conv) (lower (image_format conv)) None] \<and>
          image_paths = [])
       \<or> (\<exists>images.
            new_events s s' =
              Rasterize pdf_path (conv_dpi conv) (lower (image_format conv)) (Some images) #
              saved_pages folder (path_stem pdf_path) (lower (image_format conv)) 1 images \<and>
            image_paths = map (page_path folder (path_stem pdf_path) (lower (image_format conv)))
                            [1..<Suc (length images)])
       \<or> (\<exists>images k. k < length images \<and>
            new_events s s' =
              Rasterize pdf_path (conv_dpi conv) (lower (image_format conv)) (Some images) #
              saved_pages folder (path_stem pdf_path) (lower (image_format conv)) 1 (take k images) @
              [ImageSaved (images ! k)
                 (page_path folder (path_stem pdf_path) (lower (image_format conv)) (Suc k)) False] \<and>
            image_paths = [])"
          using full by simp
      qed
      have g: ?G using avail by blast
      from a b c d e f g show ?thesis by (intro conjI)
    next
      case unavail: False
      obtain ps s3 where cv: "convert_mock env conv1 pdf_path folder0 s2 = (ps, s3)" by force
      with run ex fo ch unavail have res: "image_paths = ps" "conv' = conv1" "s' = s3"
        by (simp_all add: convert_pdf_to_images_def)
      have ne: "new_events s s' = new_events s2 s3" using c1(3) res(3) by (simp add: new_events_def)
      have b: ?B using res(2) c1(1) by simp
      have nopil: "\<not> PIL_AVAILABLE env \<longrightarrow> image_paths = [] \<and> new_events s s' = []"
        using cv res(1) ne by (auto simp: convert_mock_def new_events_def)
      have pil: "PIL_AVAILABLE env \<longrightarrow>
           (\<exists>imgs. length imgs = min (fst (mock_page_count env pdf_path s2)) 20 \<and>
              new_events s s' = saved_pages folder0 (path_stem pdf_path) ''png'' 1 imgs \<and>
              image_paths = map (page_path folder0 (path_stem pdf_path) ''png'') [1..<Suc (length imgs)])
         \<or> (\<exists>imgs. length imgs < min (fst (mock_page_count env pdf_path s2)) 20 \<and>
              image_paths = [] \<and>
              (new_events s s' = saved_pages folder0 (path_stem pdf_path) ''png'' 1 imgs
             \<or> (\<exists>img. new_events s s' = saved_pages folder0 (path_stem pdf_path) ''png'' 1 imgs @
                  [ImageSaved img (page_path folder0 (path_stem pdf_path) ''png'' (Suc (length imgs)))
                     False])))"
        using convert_mock_full[OF cv, folded ne res(1)] by blast
      have ras: "rasterizations (new_events s s') = []"
        using nopil pil by (cases "PIL_AVAILABLE env") (auto simp: rasterizations_append)
      have len: "length image_paths \<le> 20"
        using nopil pil by (cases "PIL_AVAILABLE env") (auto simp del: upt_Suc)
      have c: ?C using ras by simp
      have f: ?F using unavail by blast
      have g: ?G
      proof (intro allI impI)
        fix folder assume "found \<and> fo = Some folder \<and> \<not> PDF2IMAGE_AVAILABLE env"
        then have "folder = folder0" using fo(2) by simp
        then show "rasterizations (new_events s s') = [] \<and> length image_paths \<le> 20 \<and>
       (\<not> PIL_AVAILABLE env \<longrightarrow> image_paths = [] \<and> new_events s s' = []) \<and>
       (PIL_AVAILABLE env \<longrightarrow>
           (\<exists>imgs. length imgs = min (fst (mock_page_count env pdf_path s2)) 20 \<and>
              new_events s s' = saved_pages folder (path_stem pdf_path) ''png'' 1 imgs \<and>
              image_paths = map (page_path folder (path_stem pdf_path) ''png'') [1..<Suc (length imgs)])
         \<or> (\<exists>imgs. length imgs < min (fst (mock_page_count env pdf_path s2)) 20 \<and>
              image_paths = [] \<and>
              (new_events s s' = saved_pages folder (path_stem pdf_path) ''png'' 1 imgs
             \<or> (\<exists>img. new_events s s' = saved_pages folder (path_stem pdf_path) ''png'' 1 imgs @
                  [ImageSaved img (page_path folder (path_stem pdf_path) ''png'' (Suc (length imgs)))
                     False]))))"
          using ras len nopil pil by simp
      qed
      from a b c d e f g show ?thesis by (intro conjI)
    qed
  qed
qed

lemma replicate_two: "replicate 2 x = [x, x]"
  by (simp add: numeral_2_eq_2)

lemma demo_convert_run:
  "convert_pdf_to_images demo_env (new_pdf_to_images 300 ''PNG'') ''/in/doc.pdf''
      (Some ''/tmp/work'') demo_world
   = ([''/tmp/work/doc_page_001.png''], new_pdf_to_images 300 ''PNG'',
      demo_world\<lparr>trace := [Rasterize ''/in/doc.pdf'' 300 ''png'' (Some [11]),
                             ImageSaved 11 ''/tmp/work/doc_page_001.png'' True]\<rparr>)"
  by (simp add: convert_pdf_to_images_def choose_output_folder_def convert_with_pdf2image_def
      call_def quiet_def demo_env_def demo_world_def new_pdf_to_images_def upper_def lower_def
      image_filename_def fmt_03d_def decimal.simps digit_char_def replicate_two join_def startswith_def
      endswith_def path_stem_def path_name_def path_parts_def)

theorem convert_pdf_to_images_fixed_dpi_witness:
  "convert_pdf_to_images demo_env (new_pdf_to_images 300 ''PNG'') ''/in/doc.pdf''
      (Some ''/tmp/work'') demo_world
   = ([''/tmp/work/doc_page_001.png''], new_pdf_to_images 300 ''PNG'',
      demo_world\<lparr>trace := [Rasterize ''/in/doc.pdf'' 300 ''png'' (Some [11]),
                             ImageSaved 11 ''/tmp/work/doc_page_001.png'' True]\<rparr>)
   \<and> call quiet (path_exists demo_env ''/in/doc.pdf'') demo_world = (True, demo_world)
   \<and> choose_output_folder demo_env (new_pdf_to_images 300 ''PNG'') (Some ''/tmp/work'') demo_world
       = (Some ''/tmp/work'', new_pdf_to_images 300 ''PNG'', demo_world)
   \<and> PDF2IMAGE_AVAILABLE demo_env
   \<and> ((new_events demo_world (demo_world\<lparr>trace := [Rasterize ''/in/doc.pdf'' 300 ''png'' (Some [11]),
                             ImageSaved 11 ''/tmp/work/doc_page_001.png'' True]\<rparr>) = [Rasterize ''/in/doc.pdf'' (conv_dpi (new_pdf_to_images 300 ''PNG'')) (lower (image_format (new_pdf_to_images 300 ''PNG''))) None] \<and>
          [''/tmp/work/doc_page_001.png''] = [])
       \<or> (\<exists>images.
            new_events demo_world (demo_world\<lparr>trace := [Rasterize ''/in/doc.pdf'' 300 ''png'' (Some [11]),
                             ImageSaved 11 ''/tmp/work/doc_page_001.png'' True]\<rparr>) =
              Rasterize ''/in/doc.pdf'' (conv_dpi (new_pdf_to_images 300 ''PNG'')) (lower (image_format (new_pdf_to_images 300 ''PNG''))) (Some images) #
              saved_pages ''/tmp/work'' (path_stem ''/in/doc.pdf'') (lower (image_format (new_pdf_to_images 300 ''PNG''))) 1 images \<and>
            [''/tmp/work/doc_page_001.png''] = map (page_path ''/tmp/work'' (path_stem ''/in/doc.pdf'') (lower (image_format (new_pdf_to_images 300 ''PNG''))))
                            [1..<Suc (length images)])
       \<or> (\<exists>images k. k < length images \<and>
            new_events demo_world (demo_world\<lparr>trace := [Rasterize ''/in/doc.pdf'' 300 ''png'' (Some [11]),
                             ImageSaved 11 ''/tmp/work/doc_page_001.png'' True]\<rparr>) =
              Rasterize ''/in/doc.pdf'' (conv_dpi (new_pdf_to_images 300 ''PNG'')) (lower (image_format (new_pdf_to_images 300 ''PNG''))) (Some images) #
              saved_pages ''/tmp/work'' (path_stem ''/in/doc.pdf'') (lower (image_format (new_pdf_to_images 300 ''PNG''))) 1 (take k images) @
              [ImageSaved (images ! k)
                 (page_path ''/tmp/work'' (path_stem ''/in/doc.pdf'') (lower (image_format (new_pdf_to_images 300 ''PNG''))) (Suc k)) False] \<and>
            [''/tmp/work/doc_page_001.png''] = []))"
proof -
  have a: "PDF2IMAGE_AVAILABLE demo_env" by (simp add: demo_env_def)
  have ex: "call quiet (path_exists demo_env ''/in/doc.pdf'') demo_world = (True, demo_world)"
    by (simp add: call_def quiet_def demo_env_def demo_world_def)
  have ch: "choose_output_folder demo_env (new_pdf_to_images 300 ''PNG'') (Some ''/tmp/work'')
       demo_world = (Some ''/tmp/work'', new_pdf_to_images 300 ''PNG'', demo_world)"
    by (simp add: choose_output_folder_def)
  from convert_pdf_to_images_fixed_dpi[OF demo_convert_run ex ch] a
  have "(new_events demo_world (demo_world\<lparr>trace := [Rasterize ''/in/doc.pdf'' 300 ''png'' (Some [11]),
                             ImageSaved 11 ''/tmp/work/doc_page_001.png'' True]\<rparr>) = [Rasterize ''/in/doc.pdf'' (conv_dpi (new_pdf_to_images 300 ''PNG'')) (lower (image_format (new_pdf_to_images 300 ''PNG''))) None] \<and>
          [''/tmp/work/doc_page_001.png''] = [])
       \<or> (\<exists>images.
            new_events demo_world (demo_world\<lparr>trace := [Rasterize ''/in/doc.pdf'' 300 ''png'' (Some [11]),
                             ImageSaved 11 ''/tmp/work/doc_page_001.png'' True]\<rparr>) =
              Rasterize ''/in/doc.pdf'' (conv_dpi (new_pdf_to_images 300 ''PNG'')) (lower (image_format (new_pdf_to_images 300 ''PNG''))) (Some images) #
              saved_pages ''/tmp/work'' (path_stem ''/in/doc.pdf'') (lower (image_format (new_pdf_to_images 300 ''PNG''))) 1 images \<and>
            [''/tmp/work/doc_page_001.png''] = map (page_path ''/tmp/work'' (path_stem ''/in/doc.pdf'') (lower (image_format (new_pdf_to_images 300 ''PNG''))))
                            [1..<Suc (length images)])
       \<or> (\<exists>images k. k < length images \<and>
            new_events demo_world (demo_world\<lparr>trace := [Rasterize ''/in/doc.pdf'' 300 ''png'' (Some [11]),
                             ImageSaved 11 ''/tmp/work/doc_page_001.png'' True]\<rparr>) =
              Rasterize ''/in/doc.pdf'' (conv_dpi (new_pdf_to_images 300 ''PNG'')) (lower (image_format (new_pdf_to_images 300 ''PNG''))) (Some images) #
              saved_pages ''/tmp/work'' (path_stem ''/in/doc.pdf'') (lower (image_format (new_pdf_to_images 300 ''PNG''))) 1 (take k images) @
              [ImageSaved (images ! k)
                 (page_path ''/tmp/work'' (path_stem ''/in/doc.pdf'') (lower (image_format (new_pdf_to_images 300 ''PNG''))) (Suc k)) False] \<and>
            [''/tmp/work/doc_page_001.png''] = [])" by blast
  with demo_convert_run ex ch a show ?thesis by blast
qed

text \<open>
  Claim C4 as stated fails in two ways. Without pdf2image, a PDF in which 25 page
  markers are counted yields 20 image paths and no rasterization at all. With
  pdf2image, a PDF of two pages whose second page image cannot be saved yields no
  path, although both pages were rasterized.
\<close>

theorem convert_pdf_to_images_counterexample:
  "fst (mock_page_count mock_env ''/in/doc.pdf'' demo_world) = 25
   \<and> length (fst (convert_pdf_to_images mock_env (new_pdf_to_images 300 ''PNG'') ''/in/doc.pdf''
                 (Some ''/tmp/work'') demo_world)) = 20
   \<and> rasterizations (new_events demo_world (snd (snd
         (convert_pdf_to_images mock_env (new_pdf_to_images 300 ''PNG'') ''/in/doc.pdf''
                 (Some ''/tmp/work'') demo_world)))) = []
   \<and> fst (convert_pdf_to_images save_fail_env (new_pdf_to_images 300 ''PNG'') ''/in/doc.pdf''
                 (Some ''/tmp/work'') demo_world) = []
   \<and> new_events demo_world (snd (snd
         (convert_pdf_to_images save_fail_env (new_pdf_to_images 300 ''PNG'') ''/in/doc.pdf''
                 (Some ''/tmp/work'') demo_world)))
      = [Rasterize ''/in/doc.pdf'' 300 ''png'' (Some [11, 12]),
         ImageSaved 11 ''/tmp/work/doc_page_001.png'' True,
         ImageSaved 12 ''/tmp/work/doc_page_002.png'' False]"
  by (simp add: convert_pdf_to_images_def choose_output_folder_def convert_with_pdf2image_def
      convert_mock_def mock_page_count_def new_events_def
      call_def quiet_def mock_env_def save_fail_env_def demo_env_def demo_world_def
      new_pdf_to_images_def upper_def lower_def
      image_filename_def fmt_03d_def decimal.simps digit_char_def replicate_two join_def startswith_def
      endswith_def path_stem_def path_name_def path_parts_def upt_conv_Cons)

section \<open>Page order through the pipeline\<close>

lemma basename_page_999:
  "basename (processed_page_path ''/tmp/work'' ''doc'' 999) = ''processed_doc_page_999.png''"
  by (simp add: processed_page_path_def page_path_def image_filename_def fmt_03d_def decimal.simps
      digit_char_def join_def startswith_def endswith_def basename_def new_name_def downloaded_ext_def
      path_stem_def path_suffix_def path_name_def path_parts_def)

lemma basename_page_1000:
  "basename (processed_page_path ''/tmp/work'' ''doc'' 1000) = ''processed_doc_page_1000.png''"
  by (simp add: processed_page_path_def page_path_def image_filename_def fmt_03d_def decimal.simps
      digit_char_def join_def startswith_def endswith_def basename_def new_name_def downloaded_ext_def
      path_stem_def path_suffix_def path_name_def path_parts_def)

lemma page_1000_before_999:
  "basename (processed_page_path ''/tmp/work'' ''doc'' 1000)
     < basename (processed_page_path ''/tmp/work'' ''doc'' 999)"
  unfolding basename_page_999 basename_page_1000 by (simp add: less_char_def)

lemma sort_key_changes_1000_pages:
  "sort_key basename (map (processed_page_path ''/tmp/work'' ''doc'') [1..<1001])
     \<noteq> map (processed_page_path ''/tmp/work'' ''doc'') [1..<1001]"
proof
  let ?P = "processed_page_path ''/tmp/work'' ''doc''"
  let ?xs = "map ?P [1..<1001]"
  assume eq: "sort_key basename ?xs = ?xs"
  have "sorted (map basename (sort_key basename ?xs))" by (rule sorted_sort_key)
  with eq have srt: "sorted (map basename ?xs)" by simp
  have len: "length (map basename ?xs) = 1000" by simp
  have "map basename ?xs ! 998 \<le> map basename ?xs ! 999"
    using srt len by (intro sorted_nth_mono) simp_all
  moreover have "map basename ?xs ! 998 = basename (?P 999)"
    by (simp del: upt_Suc add: nth_upt)
  moreover have "map basename ?xs ! 999 = basename (?P 1000)"
    by (simp del: upt_Suc add: nth_upt)
  ultimately have "basename (?P 999) \<le> basename (?P 1000)" by simp
  with page_1000_before_999 show False by simp
qed

lemma call_quiet_demo:
  "f (ext s) = (r, ext s) \<Longrightarrow> call quiet f s = (r, s)"
  by (simp add: call_def quiet_def)

lemma existing_paths_demo: "existing_paths demo_env ps s = (ps, s)"
  by (induction ps arbitrary: s) (simp_all add: call_def quiet_def demo_env_def)

lemma open_images_demo:
  "open_images demo_env ps s =
     (map (\<lambda>p. 13) ps, s\<lparr>trace := trace s @ map (\<lambda>p. Opened p (Some 13)) ps\<rparr>)"
proof (induction ps arbitrary: s)
  case Nil
  then show ?case by simp
next
  case (Cons p ps)
  have c: "call (\<lambda>r. [Opened p (ok r)]) (image_open_rgb demo_env p) s
             = (Inr 13, s\<lparr>trace := trace s @ [Opened p (Some 13)]\<rparr>)"
    by (simp add: call_def demo_env_def)
  show ?case by (simp add: c Cons.IH)
qed

lemma opened_map_Opened: "opened (map (\<lambda>p. Opened p (f p)) ps @ [SavePdf out imgs b]) = ps"
  by (induction ps) simp_all

lemma convert_images_to_pdf_demo:
  assumes "ps \<noteq> []"
  shows "convert_images_to_pdf demo_env creator ps ''/out/NoWatermark_doc.pdf'' demo_world =
    (True, demo_world\<lparr>trace := map (\<lambda>p. Opened p (Some 13)) (sort_key basename ps) @
        [SavePdf ''/out/NoWatermark_doc.pdf'' (map (\<lambda>p. 13) (sort_key basename ps)) True]\<rparr>)"
proof -
  have ne: "sort_key basename ps \<noteq> []" using assms
    by (metis length_sort list.size(3) length_0_conv)
  have e: "ensure_output_dir demo_env (dirname ''/out/NoWatermark_doc.pdf'') s = (Inr (), s)" for s :: "nat world"
    by (simp add: ensure_output_dir_def dirname_def call_def quiet_def demo_env_def)
  have pil: "PIL_AVAILABLE demo_env" by (simp add: demo_env_def)
  have f: "save_pdf demo_env imgs p d w = (Inr (), w)" "path_exists demo_env p w = (True, w)"
    "getsize demo_env p w = (Inr 2048, w)" for imgs p d w
    by (simp_all add: demo_env_def)
  show ?thesis
    unfolding convert_images_to_pdf_def existing_paths_demo open_images_demo
    using assms ne pil
    by (simp add: e f call_def quiet_def demo_world_def)
qed

text \<open>
  Claim C3 at a PDF of 1000 pages, every page converted and processed. The page images
  are named with \<^verbatim>\<open>{i:03d}\<close>, so page 1000 gets four digits, and
  \<^verbatim>\<open>processed_doc_page_1000.png\<close> is below \<^verbatim>\<open>processed_doc_page_999.png\<close> in
  the order of strings. Sorting the processed images by basename, as
  \<open>convert_images_to_pdf\<close> does "to keep the right order", therefore changes the page
  order, and the reassembly opens the images, and writes the pages, in the changed
  order.
\<close>

theorem page_order_lost_at_1000_pages:
  "basename (processed_page_path ''/tmp/work'' ''doc'' 1000)
     < basename (processed_page_path ''/tmp/work'' ''doc'' 999)
   \<and> sort_key basename (map (processed_page_path ''/tmp/work'' ''doc'') [1..<1001])
       \<noteq> map (processed_page_path ''/tmp/work'' ''doc'') [1..<1001]
   \<and> fst (convert_images_to_pdf demo_env (new_images_to_pdf 300)
            (map (processed_page_path ''/tmp/work'' ''doc'') [1..<1001])
            ''/out/NoWatermark_doc.pdf'' demo_world) = True
   \<and> opened (new_events demo_world (snd (convert_images_to_pdf demo_env (new_images_to_pdf 300)
            (map (processed_page_path ''/tmp/work'' ''doc'') [1..<1001])
            ''/out/NoWatermark_doc.pdf'' demo_world)))
       = sort_key basename (map (processed_page_path ''/tmp/work'' ''doc'') [1..<1001])"
proof -
  have ne: "map (processed_page_path ''/tmp/work'' ''doc'') [1..<1001] \<noteq> []"
    by (simp del: upt_Suc)
  note run = convert_images_to_pdf_demo[OF ne, of "new_images_to_pdf 300"]
  have 3: "fst (convert_images_to_pdf demo_env (new_images_to_pdf 300)
            (map (processed_page_path ''/tmp/work'' ''doc'') [1..<1001])
            ''/out/NoWatermark_doc.pdf'' demo_world) = True"
    unfolding run by simp
  have 4: "opened (new_events demo_world (snd (convert_images_to_pdf demo_env (new_images_to_pdf 300)
            (map (processed_page_path ''/tmp/work'' ''doc'') [1..<1001])
            ''/out/NoWatermark_doc.pdf'' demo_world)))
       = sort_key basename (map (processed_page_path ''/tmp/work'' ''doc'') [1..<1001])"
    unfolding run by (simp add: new_events_def demo_world_def opened_map_Opened del: upt_Suc)
  from page_1000_before_999 sort_key_changes_1000_pages 3 4 show ?thesis by blast
qed

section \<open>Resources of process_single_pdf\<close>

lemma rl_call:
  "call log f s = (r, s') \<Longrightarrow> resource_log s' = resource_log s @ filter resource_event (log r)"
  by (auto simp: call_def resource_log_def Let_def split: prod.splits)

lemma rl_call_quiet: "call quiet f s = (r, s') \<Longrightarrow> resource_log s' = resource_log s"
  by (auto simp: quiet_def dest: rl_call)

lemma rl_sleep [simp]: "resource_log (sleep env n s) = resource_log s"
  by (auto simp: sleep_def call_def quiet_def resource_log_def Let_def split: prod.splits)

lemma rl_read_clock [simp]: "resource_log (read_clock s) = resource_log s"
  by (simp add: read_clock_def resource_log_def)

lemma rl_paso [simp]: "resource_log (paso k s) = resource_log s"
  by (simp add: paso_def resource_log_def)

lemma rl_paso_symbols:
  "paso_symbols env k s = (r, s') \<Longrightarrow> resource_log s' = resource_log s"
  by (auto simp: paso_symbols_def dest!: rl_call)

lemma rl_driver_call: "driver_call rem f s = (r, s') \<Longrightarrow> resource_log s' = resource_log s"
  by (auto simp: driver_call_def dest: rl_call_quiet split: if_splits)

lemma rl_snd_call_quiet [simp]: "resource_log (snd (call quiet f s)) = resource_log s"
  by (rule rl_call_quiet[OF surjective_pairing])

lemma rl_snd_driver_call [simp]: "resource_log (snd (driver_call rem f s)) = resource_log s"
  by (rule rl_driver_call[OF surjective_pairing])

lemma rl_wait_call: "wait_call rem f s = (r, s') \<Longrightarrow> resource_log s' = resource_log s"
  by (auto simp: wait_call_def dest: rl_call_quiet split: if_splits)

lemma rl_wait_until_present:
  "wait_until_present env rem sel s = (r, s') \<Longrightarrow> resource_log s' = resource_log s"
  by (auto simp: wait_until_present_def dest!: rl_call split: if_splits)

lemma rl_element_is_enabled:
  "element_is_enabled env el s = (r, s') \<Longrightarrow> resource_log s' = resource_log s"
  by (auto simp: element_is_enabled_def dest!: rl_call)

lemma rl_probe_selectors:
  "probe_selectors env rem sels s = (r, s') \<Longrightarrow> resource_log s' = resource_log s"
proof (induction sels arbitrary: s)
  case Nil
  then show ?case by simp
next
  case (Cons a sels)
  then show ?case
    by (auto split: prod.splits sum.splits bool.splits
        dest!: rl_wait_until_present rl_element_is_enabled)
qed

lemma rl_find_upload_input:
  "find_upload_input env rem s = (r, s') \<Longrightarrow> resource_log s' = resource_log s"
  by (simp add: find_upload_input_def rl_probe_selectors)

lemma rl_navigate_to_site:
  "navigate_to_site env rem s = (r, s') \<Longrightarrow> resource_log s' = resource_log s"
  by (auto simp: navigate_to_site_def split: prod.splits sum.splits
      dest!: rl_driver_call rl_wait_call)

lemma rl_upload_image:
  "upload_image env rem p s = (r, s') \<Longrightarrow> resource_log s' = resource_log s"
  by (auto simp: upload_image_def split: prod.splits sum.splits bool.splits option.splits
      dest!: rl_call_quiet rl_find_upload_input)

lemma rl_try_close:
  "try_close env rem sels s = (r, s') \<Longrightarrow> resource_log s' = resource_log s"
proof (induction sels arbitrary: s)
  case Nil
  then show ?case by simp
next
  case (Cons a sels)
  then show ?case
    by (auto split: prod.splits sum.splits bool.splits dest!: rl_driver_call rl_call_quiet)
qed

lemma rl_press_escape [simp]: "resource_log (press_escape env rem s) = resource_log s"
  by (auto simp: press_escape_def split: prod.splits sum.splits
      dest!: rl_driver_call)

lemma rl_scan_popups:
  "scan_popups env rem sels s = (r, s') \<Longrightarrow> resource_log s' = resource_log s"
proof (induction sels arbitrary: s)
  case Nil
  then show ?case by simp
next
  case (Cons a sels)
  then show ?case
    by (auto split: prod.splits sum.splits bool.splits
        dest!: rl_driver_call rl_call_quiet rl_try_close)
qed

lemma rl_handle_popups [simp]:
  "resource_log (snd (handle_popups env rem s)) = resource_log s"
  by (simp add: handle_popups_def rl_scan_popups[OF surjective_pairing])

lemma rl_await_indicators [simp]:
  "resource_log (await_indicators env rem sels s) = resource_log s"
proof (induction sels arbitrary: s)
  case Nil
  then show ?case by simp
next
  case (Cons a sels)
  show ?case
    by (auto simp: Cons.IH split: prod.splits sum.splits bool.splits
        dest!: rl_driver_call rl_call_quiet)
qed

lemma rl_find_download_button:
  "find_download_button env rem sels s = (r, s') \<Longrightarrow> resource_log s' = resource_log s"
proof (induction sels arbitrary: s)
  case Nil
  then show ?case by simp
next
  case (Cons a sels)
  then show ?case
    by (auto split: prod.splits sum.splits dest!: rl_driver_call)
qed

lemma rl_wait_for_processing_completion:
  "wait_for_processing_completion env rem s = (r, s') \<Longrightarrow> resource_log s' = resource_log s"
  by (auto simp: wait_for_processing_completion_def dest!: rl_find_download_button)

lemma rl_finish_download:
  "finish_download env rem orig f s = (p, s') \<Longrightarrow> resource_log s' = resource_log s"
  by (auto simp: finish_download_def Let_def split: prod.splits sum.splits dest!: rl_call)

lemma rl_poll_download:
  "poll_download env rem fb orig start s = (r, s') \<Longrightarrow> resource_log s' = resource_log s"
proof (induction env rem fb orig start s rule: poll_download.induct)
  case (1 env rem fb orig start s)
  show ?case
  proof (cases "now s - start < 1000 * download_timeout")
    case False
    with "1.prems" show ?thesis by (auto simp: poll_download.simps[of env rem fb orig start s])
  next
    case True
    obtain l s1 where l: "call (\<lambda>r. [Listed (ok r)]) (listdir env (download_folder rem)) (read_clock s) = (l, s1)"
      by force
    from rl_call[OF l] have t1: "resource_log s1 = resource_log s" by simp
    show ?thesis
    proof (cases l)
      case (Inl e)
      with "1.prems" True l have "poll_download env rem fb orig start (sleep env 1 s1) = (r, s')"
        by (simp add: poll_download.simps[of env rem fb orig start s])
      from "1.IH"(1)[OF True l[symmetric] Inl this] t1 show ?thesis by simp
    next
      case (Inr cur)
      show ?thesis
      proof (cases "complete_files env fb cur")
        case Nil
        with "1.prems" True l Inr have "poll_download env rem fb orig start (sleep env 1 s1) = (r, s')"
          by (simp add: poll_download.simps[of env rem fb orig start s])
        from "1.IH"(2)[OF True l[symmetric] Inr Nil this] t1 show ?thesis by simp
      next
        case (Cons f fs)
        obtain p s2 where fin: "finish_download env rem orig f s1 = (p, s2)" by force
        with "1.prems" True l Inr Cons have "s' = s2"
          by (simp add: poll_download.simps[of env rem fb orig start s])
        with rl_finish_download[OF fin] t1 show ?thesis by simp
      qed
    qed
  qed
qed

lemma rl_download_processed_image:
  "download_processed_image env rem b orig s = (r, s') \<Longrightarrow> resource_log s' = resource_log s"
  by (auto simp: download_processed_image_def split: prod.splits sum.splits
      dest!: rl_call rl_call_quiet rl_driver_call rl_poll_download)

lemma rl_process_single_image:
  "process_single_image env rem p s = (r, s') \<Longrightarrow> resource_log s' = resource_log s"
  by (auto simp: process_single_image_def split: prod.splits bool.splits option.splits
      dest!: rl_navigate_to_site rl_upload_image rl_wait_for_processing_completion
        rl_download_processed_image)

lemma rl_process_images_loop:
  "process_images_loop env rem n d i ps acc s = (r, s') \<Longrightarrow> resource_log s' = resource_log s"
proof (induction ps arbitrary: i acc s)
  case Nil
  then show ?case by simp
next
  case (Cons p ps)
  obtain x s1 where x: "process_single_image env rem p s = (x, s1)" by force
  from rl_process_single_image[OF x] have t1: "resource_log s1 = resource_log s" .
  from Cons.prems x have "process_images_loop env rem n d (Suc i) ps
            (if truthy x then acc @ [the x] else acc)
            (if i < n \<and> 0 < d then sleep env d s1 else s1) = (r, s')" by simp
  from Cons.IH[OF this] t1 show ?case by (simp split: if_splits)
qed

lemma rl_process_multiple_images:
  "process_multiple_images env rem ps d s = (r, s') \<Longrightarrow> resource_log s' = resource_log s"
  by (simp add: process_multiple_images_def rl_process_images_loop)


lemma rl_new_remover:
  "new_remover env folder hl s = (r, s') \<Longrightarrow>
     resource_log s' = resource_log s \<and> (\<forall>rem. r = Inr rem \<longrightarrow> driver rem = None)"
  by (auto simp: new_remover_def split: prod.splits sum.splits dest!: rl_call_quiet)

lemma rl_setup_chrome:
  "setup_chrome env rem s = (b, rem', s') \<Longrightarrow>
     (resource_log s' = resource_log s \<and> rem' = rem \<and> \<not> b) \<or>
     (\<exists>d. resource_log s' = resource_log s @ [ChromeStarted d] \<and> driver rem' = Some d)"
  by (auto simp: setup_chrome_def split: if_splits prod.splits sum.splits
      dest!: rl_call rl_call_quiet)

lemma rl_close:
  "close env rem s = (rem', s') \<Longrightarrow>
     driver rem' = None \<and>
     (case driver rem of
        None \<Rightarrow> resource_log s' = resource_log s
      | Some d \<Rightarrow> (\<exists>b. resource_log s' = resource_log s @ [ChromeQuit d b]))"
  by (auto simp: close_def split: option.splits prod.splits dest!: rl_call)

lemma rl_save_pages:
  "save_pages env conv name folder i images acc s = (r, s') \<Longrightarrow> resource_log s' = resource_log s"
proof (induction images arbitrary: i acc s)
  case Nil
  then show ?case by simp
next
  case (Cons a images)
  then show ?case by (auto split: prod.splits sum.splits dest!: rl_call)
qed

lemma rl_mock_pages:
  "mock_pages env pdf folder n nums acc s = (r, s') \<Longrightarrow> resource_log s' = resource_log s"
proof (induction nums arbitrary: acc s)
  case Nil
  then show ?case by simp
next
  case (Cons a nums)
  then show ?case by (auto split: prod.splits sum.splits dest!: rl_call rl_call_quiet)
qed

lemma rl_convert_with_pdf2image:
  "convert_with_pdf2image env conv pdf folder s = (r, s') \<Longrightarrow> resource_log s' = resource_log s"
  by (auto simp: convert_with_pdf2image_def split: prod.splits sum.splits
      dest!: rl_call rl_save_pages)

lemma rl_mock_page_count:
  "mock_page_count env pdf s = (n, s') \<Longrightarrow> resource_log s' = resource_log s"
  by (auto simp: mock_page_count_def split: prod.splits sum.splits dest!: rl_call_quiet)

lemma rl_convert_mock:
  assumes "convert_mock env conv pdf folder s = (r, s')"
  shows "resource_log s' = resource_log s"
proof (cases "PIL_AVAILABLE env")
  case False
  with assms show ?thesis by (simp add: convert_mock_def)
next
  case True
  obtain n s1 where n: "mock_page_count env pdf s = (n, s1)" by force
  obtain m s2 where m: "mock_pages env pdf folder n [0..<min n 20] [] s1 = (m, s2)" by force
  from assms True n m have "s' = s2" by (auto simp: convert_mock_def split: sum.splits)
  with rl_mock_page_count[OF n] rl_mock_pages[OF m] show ?thesis by simp
qed

lemma rl_choose_output_folder:
  "choose_output_folder env conv fo s = (r, conv', s') \<Longrightarrow> resource_log s' = resource_log s"
  by (auto simp: choose_output_folder_def conv_create_temp_folder_def
      split: if_splits prod.splits sum.splits dest!: rl_call_quiet)

lemma rl_convert_pdf_to_images:
  "convert_pdf_to_images env conv pdf fo s = (r, conv', s') \<Longrightarrow> resource_log s' = resource_log s"
  by (auto simp: convert_pdf_to_images_def split: if_splits prod.splits bool.splits option.splits
      dest!: rl_call_quiet rl_choose_output_folder rl_convert_with_pdf2image rl_convert_mock)

lemma rl_get_pdf_info:
  "get_pdf_info env conv pdf s = (r, s') \<Longrightarrow> resource_log s' = resource_log s"
  by (auto simp: get_pdf_info_def quiet_def split: if_splits prod.splits bool.splits sum.splits
      dest!: rl_call)

lemma rl_existing_paths:
  "existing_paths env ps s = (r, s') \<Longrightarrow> resource_log s' = resource_log s"
proof (induction ps arbitrary: r s)
  case Nil
  then show ?case by simp
next
  case (Cons a ps)
  then show ?case by (auto split: prod.splits dest!: rl_call)
qed

lemma rl_open_images:
  "open_images env ps s = (r, s') \<Longrightarrow> resource_log s' = resource_log s"
proof (induction ps arbitrary: r s)
  case Nil
  then show ?case by simp
next
  case (Cons a ps)
  then show ?case by (auto split: prod.splits dest!: rl_call)
qed

lemma rl_ensure_output_dir:
  "ensure_output_dir env d s = (r, s') \<Longrightarrow> resource_log s' = resource_log s"
  by (auto simp: ensure_output_dir_def split: if_splits prod.splits bool.splits
      dest!: rl_call_quiet)

lemma rl_convert_images_to_pdf:
  assumes run: "convert_images_to_pdf env cr ps out s = (r, s')"
  shows "resource_log s' = resource_log s"
proof -
  obtain valid s1 where v: "existing_paths env (sort_key basename ps) s = (valid, s1)" by force
  obtain imgs s2 where im: "open_images env valid s1 = (imgs, s2)" by force
  obtain d s3 where d: "ensure_output_dir env (dirname out) s2 = (d, s3)" by force
  obtain sv s4 where sv: "call (\<lambda>r. [SavePdf out imgs (ok r \<noteq> None)])
                                (save_pdf env imgs out (creator_dpi cr)) s3 = (sv, s4)" by force
  obtain ex s5 where ex: "call quiet (path_exists env out) s4 = (ex, s5)" by force
  obtain gs s6 where gs: "call quiet (getsize env out) s5 = (gs, s6)" by force
  note t = rl_existing_paths[OF v] rl_open_images[OF im] rl_ensure_output_dir[OF d]
    rl_call[OF sv] rl_call_quiet[OF ex] rl_call_quiet[OF gs]
  from run v im d sv ex gs have "s' = s \<or> s' = s1 \<or> s' = s2 \<or> s' = s3 \<or> s' = s4 \<or> s' = s5 \<or> s' = s6"
    by (auto simp: convert_images_to_pdf_def split: if_splits sum.splits bool.splits)
  with t show ?thesis by auto
qed

lemma rl_final_statistics:
  "final_statistics env final pdf s = (r, s') \<Longrightarrow> resource_log s' = resource_log s"
  by (auto simp: final_statistics_def split: if_splits prod.splits bool.splits sum.splits
      dest!: rl_call_quiet)

lemma web_step_spec:
  assumes "web_step env P ps s = (r, P3, s4)"
  shows "temp_folder P3 = temp_folder P \<and>
     (\<exists>C. resource_log s4 = resource_log s @ C \<and> chrome_part P P3 C)"
proof (cases "temp_folder P")
  case None
  with assms have "P3 = P" "s4 = s" by (simp_all add: web_step_def)
  then show ?thesis by (simp add: chrome_part_def)
next
  case (Some folder)
  obtain nr s1 where nr: "new_remover env folder (proc_headless P) s = (nr, s1)" by force
  from rl_new_remover[OF nr] have t1: "resource_log s1 = resource_log s"
    "\<forall>rem. nr = Inr rem \<longrightarrow> driver rem = None" by auto
  show ?thesis
  proof (cases nr)
    case (Inl e)
    with assms Some nr have "P3 = P" "s4 = s1" by (simp_all add: web_step_def)
    then show ?thesis using t1 by (simp add: chrome_part_def)
  next
    case (Inr rem0)
    with t1 have d0: "driver rem0 = None" by simp
    obtain b rem1 s2 where sc: "setup_chrome env rem0 s1 = (b, rem1, s2)" by (metis prod_cases3)
    note sc_spec = rl_setup_chrome[OF sc]
    show ?thesis
    proof (cases b)
      case False
      with assms Some nr Inr sc have res: "P3 = P\<lparr>watermark_remover := Some rem1\<rparr>" "s4 = s2"
        by (simp_all add: web_step_def)
      from sc_spec show ?thesis
      proof
        assume "resource_log s2 = resource_log s1 \<and> rem1 = rem0 \<and> \<not> b"
        then have "resource_log s4 = resource_log s @ []" "driver rem1 = None"
          using t1 res d0 by simp_all
        then show ?thesis using res by (auto simp: chrome_part_def)
      next
        assume "\<exists>d. resource_log s2 = resource_log s1 @ [ChromeStarted d] \<and> driver rem1 = Some d"
        then obtain d where "resource_log s4 = resource_log s @ [ChromeStarted d]" "driver rem1 = Some d"
          using t1 res by auto
        then show ?thesis using res by (auto simp: chrome_part_def)
      qed
    next
      case True
      with sc_spec obtain d where d: "resource_log s2 = resource_log s1 @ [ChromeStarted d]"
        "driver rem1 = Some d" by auto
      obtain imgs s3 where pm: "process_multiple_images env rem1 ps 2 s2 = (imgs, s3)" by force
      from rl_process_multiple_images[OF pm] have t3: "resource_log s3 = resource_log s2" .
      obtain rem2 s4' where cl: "close env rem1 s3 = (rem2, s4')" by force
      from rl_close[OF cl] d(2) obtain q where q: "driver rem2 = None"
        "resource_log s4' = resource_log s3 @ [ChromeQuit d q]" by auto
      from assms Some nr Inr sc True pm cl
      have res: "P3 = P\<lparr>watermark_remover := Some rem2\<rparr>" "s4 = s4'"
        by (simp_all add: web_step_def)
      have "resource_log s4 = resource_log s @ [ChromeStarted d, ChromeQuit d q]"
        using res q d t1 t3 by simp
      then show ?thesis using res q(1) by (auto simp: chrome_part_def)
    qed
  qed
qed


lemma chrome_part_same_remover:
  "watermark_remover Q = watermark_remover P \<Longrightarrow> chrome_part Q P' C = chrome_part P P' C"
  by (simp add: chrome_part_def)

lemma chrome_part_unchanged:
  "watermark_remover P' = watermark_remover P \<Longrightarrow> chrome_part P P' []"
  by (simp add: chrome_part_def)

lemma create_temp_folder_spec:
  "create_temp_folder env P s = (b, P1, s1) \<Longrightarrow>
     (\<not> b \<and> P1 = P \<and> resource_log s1 = resource_log s @ [Mkdtemp None]) \<or>
     (\<exists>f. b \<and> P1 = P\<lparr>temp_folder := Some f\<rparr> \<and>
          resource_log s1 = resource_log s @ [Mkdtemp (Some f)])"
  by (auto simp: create_temp_folder_def split: prod.splits sum.splits dest!: rl_call)

lemma process_steps_spec:
  assumes run: "process_steps env P pdf out s = (r, P', s')"
  shows "output_folder P' = output_folder P \<and>
     ((resource_log s' = resource_log s @ [Mkdtemp None] \<and> temp_folder P' = temp_folder P \<and>
       watermark_remover P' = watermark_remover P \<and> r = Inr None) \<or>
      (\<exists>f C. resource_log s' = resource_log s @ Mkdtemp (Some f) # C \<and> temp_folder P' = Some f \<and>
             chrome_part P P' C)) \<and>
     (\<forall>p. r = Inr (Some p) \<longrightarrow> p = join (output_folder P) (final_name pdf out))"
proof -
  obtain b P1 s1 where ct: "create_temp_folder env P (paso 1 s) = (b, P1, s1)"
    by (metis prod_cases3)
  from create_temp_folder_spec[OF ct]
  show ?thesis
  proof (elim disjE conjE exE)
    assume nb: "\<not> b" and p1: "P1 = P" and t1: "resource_log s1 = resource_log (paso 1 s) @ [Mkdtemp None]"
    from run ct nb have "r = Inr None" "P' = P1" "s' = s1" by (simp_all add: process_steps_def)
    then show ?thesis using p1 t1 by simp
  next
    fix f assume b: b and p1: "P1 = P\<lparr>temp_folder := Some f\<rparr>"
      and t1: "resource_log s1 = resource_log (paso 1 s) @ [Mkdtemp (Some f)]"
    from t1 have t1': "resource_log s1 = resource_log s @ [Mkdtemp (Some f)]" by simp
    have wr1: "watermark_remover P1 = watermark_remover P" "temp_folder P1 = Some f"
      "output_folder P1 = output_folder P" using p1 by simp_all
    obtain gi s2 where gi: "get_pdf_info env (pdf_converter P1) pdf (paso 2 s1) = (gi, s2)" by force
    from rl_get_pdf_info[OF gi] have t2: "resource_log s2 = resource_log s1" by simp
    show ?thesis
    proof (cases gi)
      case (Inl e)
      with run ct b gi have "r = Inl e" "P' = P1" "s' = s2" by (simp_all add: process_steps_def)
      then show ?thesis using wr1 t1' t2 chrome_part_unchanged[of P1 P] by auto
    next
      case gir: (Inr info)
      obtain a3 s2' where a3: "paso_symbols env 3 s2 = (a3, s2')" by force
      from rl_paso_symbols[OF a3] have t2': "resource_log s2' = resource_log s1" using t2 by simp
      show ?thesis
      proof (cases a3)
        case (Inl e)
        with run ct b gi gir a3 have "r = Inl e" "P' = P1" "s' = s2'"
          by (simp_all add: process_steps_def)
        then show ?thesis using wr1 t1' t2' chrome_part_unchanged[of P1 P] by auto
      next
        case a3r: (Inr u3)
        obtain ips conv1 s3 where cv: "convert_pdf_to_images env (pdf_converter P1) pdf (temp_folder P1)
                         s2' = (ips, conv1, s3)" by (metis prod_cases3)
        from rl_convert_pdf_to_images[OF cv] have t3: "resource_log s3 = resource_log s1"
          using t2' by simp
        let ?P2 = "P1\<lparr>pdf_converter := conv1\<rparr>"
        have wr2: "watermark_remover ?P2 = watermark_remover P" "temp_folder ?P2 = Some f"
          "output_folder ?P2 = output_folder P" using wr1 by simp_all
        show ?thesis
        proof (cases "ips = []")
          case True
          with run ct b gi gir a3 a3r cv have "r = Inr None" "P' = ?P2" "s' = s3"
            by (simp_all add: process_steps_def)
          then show ?thesis using wr2 t1' t3 chrome_part_unchanged[of ?P2 P] by auto
        next
          case False
          obtain w P3 s4 where ws: "web_step env ?P2 ips (paso 4 s3) = (w, P3, s4)"
            by (metis prod_cases3)
          from web_step_spec[OF ws] obtain C where C: "temp_folder P3 = temp_folder ?P2"
            "resource_log s4 = resource_log (paso 4 s3) @ C" "chrome_part ?P2 P3 C" by blast
          have of3: "output_folder P3 = output_folder P"
            using ws wr2(3) by (auto simp: web_step_def split: option.splits prod.splits sum.splits bool.splits)
          have cp: "chrome_part P P3 C" using C(3) chrome_part_same_remover[OF wr2(1)] by simp
          have t4: "resource_log s4 = resource_log s @ Mkdtemp (Some f) # C"
            using C(2) t1' t3 by simp
          have tf3: "temp_folder P3 = Some f" using C(1) wr2(2) by simp
          show ?thesis
          proof (cases w)
            case (Inl e)
            with run ct b gi gir a3 a3r cv False ws have "r = Inl e" "P' = P3" "s' = s4"
              by (simp_all add: process_steps_def)
            then show ?thesis using of3 cp t4 tf3 by auto
          next
            case wr: (Inr wo)
            show ?thesis
            proof (cases wo)
              case None
              with run ct b gi gir a3 a3r cv False ws wr have "r = Inr None" "P' = P3" "s' = s4"
                by (simp_all add: process_steps_def)
              then show ?thesis using of3 cp t4 tf3 by auto
            next
              case (Some processed)
              let ?final = "join (output_folder P3) (final_name pdf out)"
              obtain a5 s4' where a5: "paso_symbols env 5 s4 = (a5, s4')" by force
              from rl_paso_symbols[OF a5] have t4': "resource_log s4' = resource_log s4" .
              obtain ok5 s5 where ci: "convert_images_to_pdf env (pdf_creator P3) processed ?final
                                     s4' = (ok5, s5)" by force
              from rl_convert_images_to_pdf[OF ci] have t5: "resource_log s5 = resource_log s4"
                using t4' by simp
              obtain st s6 where st: "final_statistics env ?final pdf s5 = (st, s6)" by force
              from rl_final_statistics[OF st] have t6: "resource_log s6 = resource_log s5" .
              from run ct b gi gir a3 a3r cv False ws wr Some a5 ci st
              have "P' = P3" "s' = s4' \<or> s' = s5 \<or> s' = s6" "\<forall>p. r = Inr (Some p) \<longrightarrow> p = ?final"
                by (auto simp: process_steps_def split: bool.splits sum.splits)
              then show ?thesis using of3 cp t4 t4' t5 t6 tf3 by auto
            qed
          qed
        qed
      qed
    qed
  qed
qed

lemma close_remover_spec:
  assumes "close_remover env P s = (P', s')"
  shows "temp_folder P' = temp_folder P \<and> output_folder P' = output_folder P \<and>
    (\<forall>rem. watermark_remover P' = Some rem \<longrightarrow> driver rem = None) \<and>
    (case watermark_remover P of
       None \<Rightarrow> resource_log s' = resource_log s
     | Some rem \<Rightarrow>
         (case driver rem of
            None \<Rightarrow> resource_log s' = resource_log s
          | Some d \<Rightarrow> (\<exists>b. resource_log s' = resource_log s @ [ChromeQuit d b])))"
proof (cases "watermark_remover P")
  case None
  with assms show ?thesis by (simp add: close_remover_def)
next
  case (Some rem)
  obtain rem' s1 where cl: "close env rem s = (rem', s1)" by force
  with assms Some have "P' = P\<lparr>watermark_remover := Some rem'\<rparr>" "s' = s1"
    by (simp_all add: close_remover_def)
  with rl_close[OF cl] Some show ?thesis by (auto split: option.splits)
qed

lemma cleanup_temp_folder_spec:
  assumes "cleanup_temp_folder env P s = (P', s')"
  shows "watermark_remover P' = watermark_remover P \<and> output_folder P' = output_folder P \<and>
    ((\<not> truthy (temp_folder P) \<and> temp_folder P' = temp_folder P \<and>
        resource_log s' = resource_log s) \<or>
     (\<exists>f. temp_folder P = Some f \<and> f \<noteq> [] \<and> temp_folder P' = Some f \<and>
          resource_log s' = resource_log s @ [FolderExists f False]) \<or>
     (\<exists>f. temp_folder P = Some f \<and> f \<noteq> [] \<and> temp_folder P' = Some f \<and>
          resource_log s' = resource_log s @ [FolderExists f True, Rmtree f False]) \<or>
     (\<exists>f. temp_folder P = Some f \<and> f \<noteq> [] \<and> temp_folder P' = None \<and>
          resource_log s' = resource_log s @ [FolderExists f True, Rmtree f True]))"
proof (cases "truthy (temp_folder P)")
  case False
  with assms show ?thesis by (simp add: cleanup_temp_folder_def)
next
  case True
  then obtain f where f: "temp_folder P = Some f" "f \<noteq> []"
    by (cases "temp_folder P") auto
  obtain ex s1 where ex: "call (\<lambda>found. [FolderExists f found]) (path_exists env f) s = (ex, s1)"
    by force
  from rl_call[OF ex] have t1: "resource_log s1 = resource_log s @ [FolderExists f ex]" by simp
  show ?thesis
  proof (cases ex)
    case False
    with assms True f ex have "P' = P" "s' = s1" by (simp_all add: cleanup_temp_folder_def)
    then show ?thesis using t1 f False by simp
  next
    case ext: True
    obtain rm s2 where rm: "call (\<lambda>r. [Rmtree f (ok r \<noteq> None)]) (rmtree env f) s1 = (rm, s2)"
      by force
    from rl_call[OF rm] t1 ext
    have t2: "resource_log s2 = resource_log s @ [FolderExists f True, Rmtree f (ok rm \<noteq> None)]"
      by simp
    show ?thesis
    proof (cases rm)
      case (Inl e)
      with assms True f ex ext rm have "P' = P" "s' = s2" by (simp_all add: cleanup_temp_folder_def)
      then show ?thesis using t2 f Inl by simp
    next
      case (Inr u)
      with assms True f ex ext rm have "P' = P\<lparr>temp_folder := None\<rparr>" "s' = s2"
        by (simp_all add: cleanup_temp_folder_def)
      then show ?thesis using t2 f Inr by simp
    qed
  qed
qed

text \<open>
  Claim C10, as the code has it. For an input PDF that exists, whatever
  \<open>process_single_pdf\<close> returns and whether or not an exception was raised inside,
  the resource events \<open>R\<close> of the call satisfy: the remover it leaves has no driver;
  every browser started during the call was quit later in the call (an error of the
  quit is swallowed); and for the temporary folder \<open>f\<close> it created, the last thing
  the call does is to check whether \<open>f\<close> still exists and, if it does, to call
  \<^verbatim>\<open>rmtree\<close> on it. Either \<^verbatim>\<open>rmtree\<close> succeeded and the field \<open>temp_folder\<close> is
  reset to \<open>None\<close>, or \<^verbatim>\<open>rmtree\<close> raised (the error is printed and swallowed) and
  the field still holds \<open>f\<close>, or the folder was not there any more, no removal was
  attempted and the field still holds \<open>f\<close>.
\<close>

theorem process_single_pdf_releases:
  assumes ex: "call quiet (path_exists env pdf_path) s = (True, s0)"
      and run: "process_single_pdf env P pdf_path output_filename s = (r, P', s')"
  shows "\<exists>R. resource_log s' = resource_log s @ R \<and>
           (\<forall>rem. watermark_remover P' = Some rem \<longrightarrow> driver rem = None) \<and>
           (\<forall>d. ChromeStarted d \<in> set R \<longrightarrow>
               (\<exists>R1 R2 b. R = R1 @ ChromeStarted d # R2 \<and> ChromeQuit d b \<in> set R2)) \<and>
           (\<forall>f. Mkdtemp (Some f) \<in> set R \<and> f \<noteq> [] \<longrightarrow>
               (\<exists>R0. R = R0 @ [FolderExists f True, Rmtree f True] \<and> temp_folder P' = None) \<or>
               (\<exists>R0. R = R0 @ [FolderExists f True, Rmtree f False] \<and> temp_folder P' = Some f) \<or>
               (\<exists>R0. R = R0 @ [FolderExists f False] \<and> temp_folder P' = Some f))"
proof -
  from rl_call_quiet[OF ex] have t0: "resource_log s0 = resource_log s" .
  obtain x P1 s1 where ps: "process_steps env P pdf_path output_filename s0 = (x, P1, s1)"
    by (metis prod_cases3)
  obtain P2 s2 where cr: "close_remover env P1 s1 = (P2, s2)" by force
  obtain P3 s3 where cu: "cleanup_temp_folder env P2 s2 = (P3, s3)" by force
  from run ex ps cr cu have res: "P' = P3" "s' = s3" by (simp_all add: process_single_pdf_def)
  from close_remover_spec[OF cr] have c:
    "temp_folder P2 = temp_folder P1"
    "\<forall>rem. watermark_remover P2 = Some rem \<longrightarrow> driver rem = None"
    "case watermark_remover P1 of
       None \<Rightarrow> resource_log s2 = resource_log s1
     | Some rem \<Rightarrow>
         (case driver rem of
            None \<Rightarrow> resource_log s2 = resource_log s1
          | Some d \<Rightarrow> (\<exists>b. resource_log s2 = resource_log s1 @ [ChromeQuit d b]))" by auto
  from cleanup_temp_folder_spec[OF cu] have u:
    "watermark_remover P3 = watermark_remover P2"
    "(\<not> truthy (temp_folder P2) \<and> temp_folder P3 = temp_folder P2 \<and>
        resource_log s3 = resource_log s2) \<or>
     (\<exists>f. temp_folder P2 = Some f \<and> f \<noteq> [] \<and> temp_folder P3 = Some f \<and>
          resource_log s3 = resource_log s2 @ [FolderExists f False]) \<or>
     (\<exists>f. temp_folder P2 = Some f \<and> f \<noteq> [] \<and> temp_folder P3 = Some f \<and>
          resource_log s3 = resource_log s2 @ [FolderExists f True, Rmtree f False]) \<or>
     (\<exists>f. temp_folder P2 = Some f \<and> f \<noteq> [] \<and> temp_folder P3 = None \<and>
          resource_log s3 = resource_log s2 @ [FolderExists f True, Rmtree f True])" by auto
  have drv: "\<forall>rem. watermark_remover P' = Some rem \<longrightarrow> driver rem = None"
    using c(2) u(1) res(1) by simp
  \<comment> \<open>the events of the closing of the remover\<close>
  obtain Q where Q: "resource_log s2 = resource_log s1 @ Q"
    "Q = [] \<or> (\<exists>d b rem. Q = [ChromeQuit d b] \<and> watermark_remover P1 = Some rem \<and> driver rem = Some d)"
    using c(3) by (cases "watermark_remover P1") (auto split: option.splits)
  \<comment> \<open>the events of the cleanup\<close>
  obtain T where T: "resource_log s3 = resource_log s2 @ T"
    "(T = [] \<and> \<not> truthy (temp_folder P1)) \<or>
     (\<exists>f. T = [FolderExists f False] \<and> temp_folder P1 = Some f \<and> temp_folder P3 = Some f) \<or>
     (\<exists>f. T = [FolderExists f True, Rmtree f False] \<and> temp_folder P1 = Some f \<and>
          temp_folder P3 = Some f) \<or>
     (\<exists>f. T = [FolderExists f True, Rmtree f True] \<and> temp_folder P1 = Some f \<and>
          temp_folder P3 = None)"
    using u(2) c(1) by auto
  from process_steps_spec[OF ps]
  have "(resource_log s1 = resource_log s0 @ [Mkdtemp None]) \<or>
      (\<exists>f C. resource_log s1 = resource_log s0 @ Mkdtemp (Some f) # C \<and> temp_folder P1 = Some f \<and>
             chrome_part P P1 C)" by blast
  then show ?thesis
  proof (elim disjE exE conjE)
    assume m: "resource_log s1 = resource_log s0 @ [Mkdtemp None]"
    let ?R = "Mkdtemp None # Q @ T"
    have 1: "resource_log s' = resource_log s @ ?R" using m Q(1) T(1) t0 res(2) by simp
    have 2: "\<forall>d. ChromeStarted d \<in> set ?R \<longrightarrow>
               (\<exists>R1 R2 b. ?R = R1 @ ChromeStarted d # R2 \<and> ChromeQuit d b \<in> set R2)"
      using Q(2) T(2) by auto
    have 3: "\<forall>f. Mkdtemp (Some f) \<in> set ?R \<and> f \<noteq> [] \<longrightarrow>
               (\<exists>R0. ?R = R0 @ [FolderExists f True, Rmtree f True] \<and> temp_folder P' = None) \<or>
               (\<exists>R0. ?R = R0 @ [FolderExists f True, Rmtree f False] \<and> temp_folder P' = Some f) \<or>
               (\<exists>R0. ?R = R0 @ [FolderExists f False] \<and> temp_folder P' = Some f)"
      using Q(2) T(2) by auto
    from 1 drv 2 3 show ?thesis by blast
  next
    fix f C assume m: "resource_log s1 = resource_log s0 @ Mkdtemp (Some f) # C"
      and tf: "temp_folder P1 = Some f" and cp: "chrome_part P P1 C"
    let ?R = "Mkdtemp (Some f) # C @ Q @ T"
    have 1: "resource_log s' = resource_log s @ ?R" using m Q(1) T(1) t0 res(2) by simp
    have Cs: "C = [] \<or> (\<exists>d rem. C = [ChromeStarted d] \<and> watermark_remover P1 = Some rem \<and> driver rem = Some d)
      \<or> (\<exists>d b. C = [ChromeStarted d, ChromeQuit d b])"
      using cp by (auto simp: chrome_part_def)
    have Q': "\<forall>d rem. watermark_remover P1 = Some rem \<and> driver rem = Some d \<longrightarrow> (\<exists>b. Q = [ChromeQuit d b])"
      using c(3) Q(1) by (auto split: option.splits)
    have Ts: "\<forall>d. ChromeStarted d \<notin> set Q \<and> ChromeStarted d \<notin> set T"
      using Q(2) T(2) by auto
    have 2: "\<forall>d. ChromeStarted d \<in> set ?R \<longrightarrow>
               (\<exists>R1 R2 b. ?R = R1 @ ChromeStarted d # R2 \<and> ChromeQuit d b \<in> set R2)"
    proof (intro allI impI)
      fix d assume "ChromeStarted d \<in> set ?R"
      then have inC: "ChromeStarted d \<in> set C" using Ts by auto
      from Cs show "\<exists>R1 R2 b. ?R = R1 @ ChromeStarted d # R2 \<and> ChromeQuit d b \<in> set R2"
      proof (elim disjE exE conjE)
        assume "C = []"
        with inC show ?thesis by simp
      next
        fix d' rem assume a: "C = [ChromeStarted d']" "watermark_remover P1 = Some rem"
          "driver rem = Some d'"
        with inC have dd: "d' = d" by simp
        from Q' a(2,3) obtain b where b: "Q = [ChromeQuit d' b]" by blast
        have "?R = [Mkdtemp (Some f)] @ ChromeStarted d # (Q @ T)" using a(1) dd by simp
        moreover have "ChromeQuit d b \<in> set (Q @ T)" using b dd by simp
        ultimately show ?thesis by blast
      next
        fix d' b assume a: "C = [ChromeStarted d', ChromeQuit d' b]"
        with inC have dd: "d' = d" by simp
        have "?R = [Mkdtemp (Some f)] @ ChromeStarted d # (ChromeQuit d b # Q @ T)"
          using a dd by simp
        moreover have "ChromeQuit d b \<in> set (ChromeQuit d b # Q @ T)" by simp
        ultimately show ?thesis by blast
      qed
    qed
    have noM: "\<forall>g. Mkdtemp g \<notin> set C \<and> Mkdtemp g \<notin> set Q \<and> Mkdtemp g \<notin> set T"
      using Cs Q(2) T(2) by auto
    have 3: "\<forall>g. Mkdtemp (Some g) \<in> set ?R \<and> g \<noteq> [] \<longrightarrow>
               (\<exists>R0. ?R = R0 @ [FolderExists g True, Rmtree g True] \<and> temp_folder P' = None) \<or>
               (\<exists>R0. ?R = R0 @ [FolderExists g True, Rmtree g False] \<and> temp_folder P' = Some g) \<or>
               (\<exists>R0. ?R = R0 @ [FolderExists g False] \<and> temp_folder P' = Some g)"
    proof (intro allI impI)
      fix g assume "Mkdtemp (Some g) \<in> set ?R \<and> g \<noteq> []"
      then have gf: "g = f" and ne: "f \<noteq> []" using noM by auto
      from ne tf have tr: "truthy (temp_folder P1)" by simp
      from T(2) tr tf
      have "T = [FolderExists f False] \<and> temp_folder P3 = Some f \<or>
            T = [FolderExists f True, Rmtree f False] \<and> temp_folder P3 = Some f \<or>
            T = [FolderExists f True, Rmtree f True] \<and> temp_folder P3 = None" by auto
      then show "(\<exists>R0. ?R = R0 @ [FolderExists g True, Rmtree g True] \<and> temp_folder P' = None) \<or>
               (\<exists>R0. ?R = R0 @ [FolderExists g True, Rmtree g False] \<and> temp_folder P' = Some g) \<or>
               (\<exists>R0. ?R = R0 @ [FolderExists g False] \<and> temp_folder P' = Some g)"
      proof (elim disjE conjE)
        assume a: "T = [FolderExists f False]" "temp_folder P3 = Some f"
        have "?R = (Mkdtemp (Some f) # C @ Q) @ [FolderExists f False]" using a(1) by simp
        with a(2) gf res(1) show ?thesis by blast
      next
        assume a: "T = [FolderExists f True, Rmtree f False]" "temp_folder P3 = Some f"
        have "?R = (Mkdtemp (Some f) # C @ Q) @ [FolderExists f True, Rmtree f False]"
          using a(1) by simp
        with a(2) gf res(1) show ?thesis by blast
      next
        assume a: "T = [FolderExists f True, Rmtree f True]" "temp_folder P3 = None"
        have "?R = (Mkdtemp (Some f) # C @ Q) @ [FolderExists f True, Rmtree f True]"
          using a(1) by simp
        with a(2) gf res(1) show ?thesis by blast
      qed
    qed
    from 1 drv 2 3 show ?thesis by blast
  qed
qed

section \<open>Runs of process_single_pdf on the concrete environments\<close>

lemmas string_defs = join_def startswith_def endswith_def basename_def dirname_def
  path_stem_def path_suffix_def path_name_def path_parts_def image_filename_def fmt_03d_def
  decimal.simps digit_char_def replicate_two upper_def lower_def new_name_def downloaded_ext_def
  final_name_def

lemmas remover_defs = new_remover_def setup_chrome_def navigate_to_site_def upload_image_def
  find_upload_input_def upload_selectors_def wait_until_present_def element_is_enabled_def
  handle_popups_def popup_selectors_def close_selectors_def press_escape_def
  wait_for_processing_completion_def processing_selectors_def download_selectors_def
  download_processed_image_def poll_download.simps finish_download_def complete_files_def
  new_files_def
  complete_file_def incomplete_suffixes_def process_single_image_def process_multiple_images_def
  close_def driver_call_def wait_call_def page_timeout_def processing_timeout_def
  download_timeout_def site_url_def

lemmas converter_defs = new_pdf_to_images_def convert_pdf_to_images_def choose_output_folder_def
  convert_with_pdf2image_def convert_mock_def mock_page_count_def get_pdf_info_def
  new_images_to_pdf_def convert_images_to_pdf_def ensure_output_dir_def

lemmas processor_defs = process_single_pdf_def process_steps_def web_step_def
  create_temp_folder_def cleanup_temp_folder_def close_remover_def final_statistics_def paso_def
  paso_symbols_def

lemmas world_defs = call_def quiet_def sleep_def read_clock_def new_events_def Let_def

text \<open>
  Claim C2 at an input PDF that exists and is an empty file, on a host without
  pdf2image: the mock conversion draws one page, the browser is set up, the page is
  processed, and step 5 writes \<^verbatim>\<open>/out/NoWatermark_empty.pdf\<close> (the log shows all
  five steps and the PDF saved). The statistics printed after step 5 then divide the
  final size by the original size, zero; the \<^verbatim>\<open>ZeroDivisionError\<close> lands in the
  general handler, and the call returns \<open>None\<close> instead of the path of the final PDF.
\<close>

theorem process_single_pdf_empty_original:
  "process_single_pdf empty_pdf_env demo_processor ''/in/empty.pdf'' None demo_world =
    (None,
     demo_processor\<lparr>watermark_remover :=
        Some \<lparr>download_folder = ''/tmp/pdf_watermark_processing_k3x'', headless = True,
              driver = None, wait_set = False\<rparr>\<rparr>,
     \<lparr>ext = 1, now = 5000,
      trace =
       [Paso 1, Mkdtemp (Some ''/tmp/pdf_watermark_processing_k3x''),
        Paso 2, Paso 3,
        ImageSaved 12 ''/tmp/pdf_watermark_processing_k3x/empty_page_001.png'' True,
        Paso 4, ChromeStarted 1,
        WaitPresence ''input[type='file']'' None,
        WaitPresence ''#uploadImage'' (Some 7), IsEnabled 7 (Some True),
        Listed (Some [''empty_page_001.png'']), Clock 5000, Clock 5000,
        Listed (Some [''empty_page_001.png'', ''result.png'']),
        Renamed ''/tmp/pdf_watermark_processing_k3x/result.png''
          ''/tmp/pdf_watermark_processing_k3x/processed_empty_page_001.png'' True,
        Sized ''/tmp/pdf_watermark_processing_k3x/processed_empty_page_001.png'' True,
        ChromeQuit 1 True, Paso 5,
        Opened ''/tmp/pdf_watermark_processing_k3x/processed_empty_page_001.png'' (Some 13),
        SavePdf ''/out/NoWatermark_empty.pdf'' [13] True,
        FolderExists ''/tmp/pdf_watermark_processing_k3x'' True,
        Rmtree ''/tmp/pdf_watermark_processing_k3x'' True]\<rparr>)
   \<and> fst (path_exists empty_pdf_env ''/in/empty.pdf'' 0) = True
   \<and> fst (final_statistics empty_pdf_env ''/out/NoWatermark_empty.pdf'' ''/in/empty.pdf''
            demo_world) = Inl ZeroDivisionError"
  by (simp add: processor_defs converter_defs remover_defs world_defs string_defs
      empty_pdf_env_def demo_env_def demo_processor_def demo_world_def)

lemma demo_pdf_run:
  "process_single_pdf demo_env demo_processor ''/in/doc.pdf'' None demo_world =
    (Some ''/out/NoWatermark_doc.pdf'',
     demo_processor\<lparr>watermark_remover :=
        Some \<lparr>download_folder = ''/tmp/pdf_watermark_processing_k3x'', headless = True,
              driver = None, wait_set = False\<rparr>\<rparr>,
     \<lparr>ext = 1, now = 5000,
      trace =
       [Paso 1, Mkdtemp (Some ''/tmp/pdf_watermark_processing_k3x''),
        Paso 2, Rasterize ''/in/doc.pdf'' 72 ''ppm'' (Some [11]),
        Rasterize ''/in/doc.pdf'' 72 ''ppm'' (Some [11]),
        Paso 3, Rasterize ''/in/doc.pdf'' 300 ''png'' (Some [11]),
        ImageSaved 11 ''/tmp/pdf_watermark_processing_k3x/doc_page_001.png'' True,
        Paso 4, ChromeStarted 1,
        WaitPresence ''input[type='file']'' None,
        WaitPresence ''#uploadImage'' (Some 7), IsEnabled 7 (Some True),
        Listed (Some [''doc_page_001.png'']), Clock 5000, Clock 5000,
        Listed (Some [''doc_page_001.png'', ''result.png'']),
        Renamed ''/tmp/pdf_watermark_processing_k3x/result.png''
          ''/tmp/pdf_watermark_processing_k3x/processed_doc_page_001.png'' True,
        Sized ''/tmp/pdf_watermark_processing_k3x/processed_doc_page_001.png'' True,
        ChromeQuit 1 True, Paso 5,
        Opened ''/tmp/pdf_watermark_processing_k3x/processed_doc_page_001.png'' (Some 13),
        SavePdf ''/out/NoWatermark_doc.pdf'' [13] True,
        FolderExists ''/tmp/pdf_watermark_processing_k3x'' True,
        Rmtree ''/tmp/pdf_watermark_processing_k3x'' True]\<rparr>)"
  by (simp add: processor_defs converter_defs remover_defs world_defs string_defs
      demo_env_def demo_processor_def demo_world_def)

text \<open>The run on the concrete environment: one browser started and quit, the temporary
  folder made, found still there at the end, and removed.\<close>

theorem process_single_pdf_releases_witness:
  "call quiet (path_exists demo_env ''/in/doc.pdf'') demo_world = (True, demo_world)
   \<and> resource_log (snd (snd (process_single_pdf demo_env demo_processor ''/in/doc.pdf''
                                None demo_world)))
       = [Mkdtemp (Some ''/tmp/pdf_watermark_processing_k3x''), ChromeStarted 1, ChromeQuit 1 True,
          FolderExists ''/tmp/pdf_watermark_processing_k3x'' True,
          Rmtree ''/tmp/pdf_watermark_processing_k3x'' True]
   \<and> temp_folder (fst (snd (process_single_pdf demo_env demo_processor ''/in/doc.pdf''
                                None demo_world))) = None
   \<and> (\<exists>R. resource_log (snd (snd (process_single_pdf demo_env demo_processor
                      ''/in/doc.pdf'' None demo_world)))
             = resource_log demo_world @ R \<and>
           (\<forall>rem. watermark_remover (fst (snd (process_single_pdf demo_env demo_processor
                      ''/in/doc.pdf'' None demo_world))) = Some rem \<longrightarrow> driver rem = None) \<and>
           (\<forall>d. ChromeStarted d \<in> set R \<longrightarrow>
               (\<exists>R1 R2 b. R = R1 @ ChromeStarted d # R2 \<and> ChromeQuit d b \<in> set R2)) \<and>
           (\<forall>f. Mkdtemp (Some f) \<in> set R \<and> f \<noteq> [] \<longrightarrow>
               (\<exists>R0. R = R0 @ [FolderExists f True, Rmtree f True] \<and>
                  temp_folder (fst (snd (process_single_pdf demo_env demo_processor
                      ''/in/doc.pdf'' None demo_world))) = None) \<or>
               (\<exists>R0. R = R0 @ [FolderExists f True, Rmtree f False] \<and>
                  temp_folder (fst (snd (process_single_pdf demo_env demo_processor
                      ''/in/doc.pdf'' None demo_world))) = Some f) \<or>
               (\<exists>R0. R = R0 @ [FolderExists f False] \<and>
                  temp_folder (fst (snd (process_single_pdf demo_env demo_processor
                      ''/in/doc.pdf'' None demo_world))) = Some f)))"
proof -
  have ex: "call quiet (path_exists demo_env ''/in/doc.pdf'') demo_world = (True, demo_world)"
    by (simp add: call_def quiet_def demo_env_def demo_world_def)
  have run: "process_single_pdf demo_env demo_processor ''/in/doc.pdf'' None demo_world =
    (fst (process_single_pdf demo_env demo_processor ''/in/doc.pdf'' None demo_world),
     fst (snd (process_single_pdf demo_env demo_processor ''/in/doc.pdf'' None demo_world)),
     snd (snd (process_single_pdf demo_env demo_processor ''/in/doc.pdf'' None demo_world)))"
    by simp
  have log: "resource_log (snd (snd (process_single_pdf demo_env demo_processor ''/in/doc.pdf''
                                None demo_world)))
       = [Mkdtemp (Some ''/tmp/pdf_watermark_processing_k3x''), ChromeStarted 1, ChromeQuit 1 True,
          FolderExists ''/tmp/pdf_watermark_processing_k3x'' True,
          Rmtree ''/tmp/pdf_watermark_processing_k3x'' True]"
    unfolding demo_pdf_run by (simp add: resource_log_def)
  have tf: "temp_folder (fst (snd (process_single_pdf demo_env demo_processor ''/in/doc.pdf''
                                None demo_world))) = None"
    unfolding demo_pdf_run by (simp add: demo_processor_def)
  from process_single_pdf_releases[OF ex run]
  have "(\<exists>R. resource_log (snd (snd (process_single_pdf demo_env demo_processor
                      ''/in/doc.pdf'' None demo_world)))
             = resource_log demo_world @ R \<and>
           (\<forall>rem. watermark_remover (fst (snd (process_single_pdf demo_env demo_processor
                      ''/in/doc.pdf'' None demo_world))) = Some rem \<longrightarrow> driver rem = None) \<and>
           (\<forall>d. ChromeStarted d \<in> set R \<longrightarrow>
               (\<exists>R1 R2 b. R = R1 @ ChromeStarted d # R2 \<and> ChromeQuit d b \<in> set R2)) \<and>
           (\<forall>f. Mkdtemp (Some f) \<in> set R \<and> f \<noteq> [] \<longrightarrow>
               (\<exists>R0. R = R0 @ [FolderExists f True, Rmtree f True] \<and>
                  temp_folder (fst (snd (process_single_pdf demo_env demo_processor
                      ''/in/doc.pdf'' None demo_world))) = None) \<or>
               (\<exists>R0. R = R0 @ [FolderExists f True, Rmtree f False] \<and>
                  temp_folder (fst (snd (process_single_pdf demo_env demo_processor
                      ''/in/doc.pdf'' None demo_world))) = Some f) \<or>
               (\<exists>R0. R = R0 @ [FolderExists f False] \<and>
                  temp_folder (fst (snd (process_single_pdf demo_env demo_processor
                      ''/in/doc.pdf'' None demo_world))) = Some f)))" .
  with ex log tf show ?thesis by (intro conjI)
qed

text \<open>
  Claim C10 as stated fails where the temporary folder cannot be removed: the run
  succeeds and returns the final PDF, \<^verbatim>\<open>shutil.rmtree\<close> raises, the error is
  swallowed, the folder stays on disk and the field \<open>temp_folder\<close> still holds it.
\<close>

theorem process_single_pdf_cleanup_counterexample:
  "process_single_pdf rmtree_fail_env demo_processor ''/in/doc.pdf'' None demo_world =
    (Some ''/out/NoWatermark_doc.pdf'',
     demo_processor\<lparr>temp_folder := Some ''/tmp/pdf_watermark_processing_k3x'',
        watermark_remover :=
        Some \<lparr>download_folder = ''/tmp/pdf_watermark_processing_k3x'', headless = True,
              driver = None, wait_set = False\<rparr>\<rparr>,
     \<lparr>ext = 1, now = 5000,
      trace =
       [Paso 1, Mkdtemp (Some ''/tmp/pdf_watermark_processing_k3x''),
        Paso 2, Rasterize ''/in/doc.pdf'' 72 ''ppm'' (Some [11]),
        Rasterize ''/in/doc.pdf'' 72 ''ppm'' (Some [11]),
        Paso 3, Rasterize ''/in/doc.pdf'' 300 ''png'' (Some [11]),
        ImageSaved 11 ''/tmp/pdf_watermark_processing_k3x/doc_page_001.png'' True,
        Paso 4, ChromeStarted 1,
        WaitPresence ''input[type='file']'' None,
        WaitPresence ''#uploadImage'' (Some 7), IsEnabled 7 (Some True),
        Listed (Some [''doc_page_001.png'']), Clock 5000, Clock 5000,
        Listed (Some [''doc_page_001.png'', ''result.png'']),
        Renamed ''/tmp/pdf_watermark_processing_k3x/result.png''
          ''/tmp/pdf_watermark_processing_k3x/processed_doc_page_001.png'' True,
        Sized ''/tmp/pdf_watermark_processing_k3x/processed_doc_page_001.png'' True,
        ChromeQuit 1 True, Paso 5,
        Opened ''/tmp/pdf_watermark_processing_k3x/processed_doc_page_001.png'' (Some 13),
        SavePdf ''/out/NoWatermark_doc.pdf'' [13] True,
        FolderExists ''/tmp/pdf_watermark_processing_k3x'' True,
        Rmtree ''/tmp/pdf_watermark_processing_k3x'' False]\<rparr>)
   \<and> temp_folder (demo_processor\<lparr>temp_folder := Some ''/tmp/pdf_watermark_processing_k3x'',
        watermark_remover :=
        Some \<lparr>download_folder = ''/tmp/pdf_watermark_processing_k3x'', headless = True,
              driver = None, wait_set = False\<rparr>\<rparr>) \<noteq> None"
  by (simp add: processor_defs converter_defs remover_defs world_defs string_defs
      rmtree_fail_env_def demo_env_def demo_processor_def demo_world_def)

section \<open>Properties of process_multiple_pdfs\<close>



















end
